theory Spec2Isabelle
  imports Main
begin

section \<open>Data model of diagnose_me.py\<close>

text \<open>
  \<^verbatim>\<open>Suggestion = collections.namedtuple("Suggestion", ("headline", "description"))\<close>
\<close>

datatype Suggestion = Suggestion (headline: string) (description: string)

text \<open>
  Exceptions the script meets. \<open>CalledProcessError\<close> carries the return code,
  \<open>OSError\<close> the errno; \<open>OtherException\<close> is any other class derived from Python's
  \<open>Exception\<close>, by name. \<open>KeyboardInterrupt\<close> and \<open>SystemExit\<close> derive from
  \<open>BaseException\<close> only, so \<open>except Exception\<close> does not catch them.
\<close>

datatype exn =
    CalledProcessError nat
  | UnicodeDecodeError
  | OSError nat
  | OtherException string
  | KeyboardInterrupt
  | SystemExit

fun is_Exception :: "exn \<Rightarrow> bool" where
  "is_Exception KeyboardInterrupt = False"
| "is_Exception SystemExit = False"
| "is_Exception _ = True"

text \<open>
  Standard output is a list of items in the order written: \<open>Print s\<close> is the text
  \<open>s\<close> followed by a newline (a \<open>print\<close> call, or one record of the logging
  handler installed by \<open>set_up_logging\<close>, which writes to the same stream);
  \<open>Traceback e\<close> is what \<open>traceback.print_exc(file=sys.stdout)\<close> writes while
  \<open>e\<close> is being handled.
\<close>

datatype out = Print string | Traceback exn

text \<open>
  A generator object, as the run observes it: the body's steps in order (a log
  record written, or a value yielded), then how the body ends (it returns, which
  ends the iteration, or it raises).
\<close>

datatype event = Log string | Yield Suggestion

datatype ending = Return | Raise exn

datatype generator = Generator (events: "event list") (ending: ending)

text \<open>
  A call of a zero-argument function: the log records written while the body runs,
  then the exception raised (\<open>Inl\<close>) or the value returned (\<open>Inr\<close>). Calling a
  generator function writes nothing and returns the generator object; its body
  runs when the object is iterated.
\<close>

datatype 'a call = Call (written: "string list") (outcome: "exn + 'a")

datatype 'a func = Fn (func_name: string) (body: "'a call")

text \<open>A function handed to \<open>check\<close> returns \<open>None\<close> or a generator of suggestions.\<close>

type_synonym fn = "generator option func"

type_synonym wrapped = "generator func"

text \<open>
  A function with a \<open>yield\<close> in its body: calling it writes nothing and returns
  the generator.
\<close>

definition generator_function :: "string \<Rightarrow> generator \<Rightarrow> fn" where
  "generator_function name g = Fn name (Call [] (Inr (Some g)))"

section \<open>Python strings and textwrap\<close>

text \<open>
  A Python \<open>str\<close> is modelled as a \<open>string\<close> whose characters are the code points
  below 256. The character classes are those of Python 3 on these code points, and
  \<open>textwrap\<close> is the module of CPython 3.11 (\<open>dedent\<close>, and \<open>TextWrapper\<close> with its
  default settings: width 70, tabs expanded, whitespace replaced, long words broken,
  whitespace dropped at line ends, breaks allowed after hyphens).
\<close>

definition code :: "char \<Rightarrow> nat" where
  "code c = of_char c"

text \<open>\<^verbatim>\<open>_whitespace = '\t\n\x0b\x0c\r '\<close>\<close>

definition tw_space :: "char \<Rightarrow> bool" where
  "tw_space c = (code c = 0x20 \<or> (0x09 \<le> code c \<and> code c \<le> 0x0D))"

text \<open>\<^verbatim>\<open>str.isspace\<close> of one character: what \<open>str.strip()\<close> removes.\<close>

definition isspace :: "char \<Rightarrow> bool" where
  "isspace c =
     ((0x09 \<le> code c \<and> code c \<le> 0x0D) \<or> (0x1C \<le> code c \<and> code c \<le> 0x20)
      \<or> code c = 0x85 \<or> code c = 0xA0)"

text \<open>The regular expression classes \<^verbatim>\<open>\d\<close> and \<^verbatim>\<open>\w\<close> on a \<open>str\<close> pattern.\<close>

definition re_d :: "char \<Rightarrow> bool" where
  "re_d c = (0x30 \<le> code c \<and> code c \<le> 0x39)"

definition re_w :: "char \<Rightarrow> bool" where
  "re_w c =
     ((0x30 \<le> code c \<and> code c \<le> 0x39) \<or> (0x41 \<le> code c \<and> code c \<le> 0x5A)
      \<or> code c = 0x5F \<or> (0x61 \<le> code c \<and> code c \<le> 0x7A)
      \<or> code c = 0xAA \<or> code c = 0xB2 \<or> code c = 0xB3 \<or> code c = 0xB5
      \<or> code c = 0xB9 \<or> code c = 0xBA \<or> (0xBC \<le> code c \<and> code c \<le> 0xBE)
      \<or> (0xC0 \<le> code c \<and> code c \<le> 0xD6) \<or> (0xD8 \<le> code c \<and> code c \<le> 0xF6)
      \<or> 0xF8 \<le> code c)"

text \<open>\<^verbatim>\<open>letter = r'[^\d\W]'\<close> and \<^verbatim>\<open>word_punct = r'[\w!"\'&.,?]'\<close>\<close>

definition letter :: "char \<Rightarrow> bool" where
  "letter c = (re_w c \<and> \<not> re_d c)"

definition word_punct :: "char \<Rightarrow> bool" where
  "word_punct c =
     (re_w c \<or> code c = 0x21 \<or> code c = 0x22 \<or> code c = 0x27 \<or> code c = 0x26
      \<or> code c = 0x2E \<or> code c = 0x2C \<or> code c = 0x3F)"

subsection \<open>str.strip, str.split, str.join, str.expandtabs\<close>

definition lstrip :: "string \<Rightarrow> string" where
  "lstrip s = dropWhile isspace s"

definition rstrip :: "string \<Rightarrow> string" where
  "rstrip s = rev (dropWhile isspace (rev s))"

definition strip :: "string \<Rightarrow> string" where
  "strip s = rstrip (lstrip s)"

text \<open>\<^verbatim>\<open>s.split(sep)\<close> for a one-character separator: never an empty list.\<close>

fun split_on :: "char \<Rightarrow> string \<Rightarrow> string list" where
  "split_on sep [] = [[]]"
| "split_on sep (c # cs) =
     (if c = sep then [] # split_on sep cs
      else (case split_on sep cs of
              [] \<Rightarrow> [[c]]
            | l # ls \<Rightarrow> (c # l) # ls))"

fun join :: "string \<Rightarrow> string list \<Rightarrow> string" where
  "join sep [] = []"
| "join sep [l] = l"
| "join sep (l # ls) = l @ sep @ join sep ls"

text \<open>
  \<^verbatim>\<open>text.expandtabs(8)\<close>: the column counts characters since the last
  \<open>\n\<close> or \<open>\r\<close>; a tab becomes the spaces up to the next multiple of 8.
\<close>

fun expandtabs_from :: "nat \<Rightarrow> string \<Rightarrow> string" where
  "expandtabs_from col [] = []"
| "expandtabs_from col (c # cs) =
     (if code c = 0x09 then
        replicate (8 - col mod 8) CHR '' '' @ expandtabs_from (col + (8 - col mod 8)) cs
      else if code c = 0x0A \<or> code c = 0x0D then c # expandtabs_from 0 cs
      else c # expandtabs_from (col + 1) cs)"

definition expandtabs :: "string \<Rightarrow> string" where
  "expandtabs s = expandtabs_from 0 s"

subsection \<open>textwrap.dedent\<close>

definition blank :: "char \<Rightarrow> bool" where
  "blank c = (code c = 0x20 \<or> code c = 0x09)"

text \<open>
  \<^verbatim>\<open>_whitespace_only_re = re.compile('^[ \t]+$', re.MULTILINE)\<close>, substituted by
  \<open>''\<close>: a line of spaces and tabs only becomes empty.
\<close>

definition whitespace_only_sub :: "string list \<Rightarrow> string list" where
  "whitespace_only_sub ls = map (\<lambda>l. if list_all blank l then [] else l) ls"

text \<open>
  \<^verbatim>\<open>_leading_whitespace_re = re.compile('(^[ \t]*)(?:[^ \t\n])', re.MULTILINE)\<close>,
  \<open>findall\<close>: the leading run of spaces and tabs of every line that has another
  character after it.
\<close>

definition leading_whitespace :: "string list \<Rightarrow> string list" where
  "leading_whitespace ls =
     map (takeWhile blank) (filter (\<lambda>l. dropWhile blank l \<noteq> []) ls)"

fun common_prefix :: "string \<Rightarrow> string \<Rightarrow> string" where
  "common_prefix (x # xs) (y # ys) = (if x = y then x # common_prefix xs ys else [])"
| "common_prefix _ _ = []"

definition startswith :: "string \<Rightarrow> string \<Rightarrow> bool" where
  "startswith s p = (take (length p) s = p)"

text \<open>
  The loop over \<open>indents\<close>:
  \<^verbatim>\<open>
  if margin is None: margin = indent
  elif indent.startswith(margin): pass
  elif margin.startswith(indent): margin = indent
  else:
      for i, (x, y) in enumerate(zip(margin, indent)):
          if x != y:
              margin = margin[:i]
              break
  \<close>
\<close>

fun margin_step :: "string option \<Rightarrow> string \<Rightarrow> string option" where
  "margin_step None indent = Some indent"
| "margin_step (Some margin) indent =
     (if startswith indent margin then Some margin
      else if startswith margin indent then Some indent
      else Some (common_prefix margin indent))"

definition find_margin :: "string list \<Rightarrow> string option" where
  "find_margin indents = foldl margin_step None indents"

text \<open>\<^verbatim>\<open>if margin: text = re.sub(r'(?m)^' + margin, '', text)\<close>\<close>

definition remove_margin :: "string \<Rightarrow> string list \<Rightarrow> string list" where
  "remove_margin margin ls =
     map (\<lambda>l. if startswith l margin then drop (length margin) l else l) ls"

definition dedent :: "string \<Rightarrow> string" where
  "dedent text =
     (let ls = whitespace_only_sub (split_on CHR 0x0A text)
      in case find_margin (leading_whitespace ls) of
           None \<Rightarrow> join [CHR 0x0A] ls
         | Some margin \<Rightarrow>
             if margin = [] then join [CHR 0x0A] ls
             else join [CHR 0x0A] (remove_margin margin ls))"

subsection \<open>TextWrapper._munge_whitespace and TextWrapper._split\<close>

definition munge_whitespace :: "string \<Rightarrow> string" where
  "munge_whitespace text = map (\<lambda>c. if tw_space c then CHR '' '' else c) (expandtabs text)"

definition hyphen :: "char \<Rightarrow> bool" where
  "hyphen c = (c = CHR ''-'')"

text \<open>The lookahead \<^verbatim>\<open>(?=-{2,}\w)\<close>, and \<^verbatim>\<open>-{2,}(?=\w)\<close> at the text \<open>s\<close>.\<close>

definition em_dash_ahead :: "string \<Rightarrow> bool" where
  "em_dash_ahead s =
     (2 \<le> length (takeWhile hyphen s) \<and>
      (case dropWhile hyphen s of [] \<Rightarrow> False | c # _ \<Rightarrow> re_w c))"

text \<open>
  The lookbehinds \<^verbatim>\<open>(?<=%(lt)s{2}-) | (?<=%(lt)s-%(lt)s-)\<close> just after a hyphen;
  \<open>seen\<close> is the text seen that hyphen, last character first.
\<close>

fun hyphen_behind :: "string \<Rightarrow> bool" where
  "hyphen_behind (a # b # c # _) =
     (letter a \<and> (letter b \<or> (hyphen b \<and> letter c)))"
| "hyphen_behind [a, b] = (letter a \<and> letter b)"
| "hyphen_behind _ = False"

text \<open>The lookahead \<^verbatim>\<open>(?= %(lt)s -? %(lt)s)\<close>.\<close>

fun hyphen_ahead :: "string \<Rightarrow> bool" where
  "hyphen_ahead (a # b # c # _) =
     (letter a \<and> (letter b \<or> (hyphen b \<and> letter c)))"
| "hyphen_ahead [a, b] = (letter a \<and> letter b)"
| "hyphen_ahead _ = False"

text \<open>
  The third alternative of \<open>wordsep_re\<close>, after its first character:
  \<^verbatim>\<open>
  %(nws)s+? (?:
      -(?: (?<=%(lt)s{2}-) | (?<=%(lt)s-%(lt)s-)) (?= %(lt)s -? %(lt)s)
    | (?=%(ws)s|\Z)
    | (?<=%(wp)s) (?=-{2,}\w)
  )
  \<close>
  \<open>seen\<close> is the text read so far, last character first; the result is the
  rest of the chunk and the text after it.
\<close>

fun word_rest :: "string \<Rightarrow> string \<Rightarrow> string \<times> string" where
  "word_rest seen [] = ([], [])"
| "word_rest seen (c # cs) =
     (if hyphen c \<and> hyphen_behind seen \<and> hyphen_ahead cs then ([c], cs)
      else if tw_space c then ([], c # cs)
      else if (case seen of [] \<Rightarrow> False | p # _ \<Rightarrow> word_punct p) \<and> em_dash_ahead (c # cs)
        then ([], c # cs)
      else (case word_rest (c # seen) cs of (w, r) \<Rightarrow> (c # w, r)))"

text \<open>
  One match of \<open>wordsep_re\<close> at a non-empty text: whitespace, an em-dash between
  words, or a word.
\<close>

definition next_chunk :: "string \<Rightarrow> char \<Rightarrow> string \<Rightarrow> string \<times> string" where
  "next_chunk seen c cs =
     (if tw_space c then (c # takeWhile tw_space cs, dropWhile tw_space cs)
      else if (case seen of [] \<Rightarrow> False | p # _ \<Rightarrow> word_punct p) \<and> em_dash_ahead (c # cs)
        then (c # takeWhile hyphen cs, dropWhile hyphen cs)
      else (case word_rest (c # seen) cs of (w, r) \<Rightarrow> (c # w, r)))"

lemma word_rest_length: "length (snd (word_rest seen s)) \<le> length s"
  by (induction seen s rule: word_rest.induct) (auto split: prod.splits)

lemma next_chunk_length: "length (snd (next_chunk seen c cs)) \<le> length cs"
  using word_rest_length [of "c # seen" cs]
  by (auto simp: next_chunk_def length_dropWhile_le split: prod.splits)

lemma next_chunk_shorter:
  "(chunk, rest) = next_chunk seen c cs \<Longrightarrow> length rest < Suc (length cs)"
  using next_chunk_length [of seen c cs] by (metis le_imp_less_Suc snd_conv)

function split_from :: "string \<Rightarrow> string \<Rightarrow> string list" where
  "split_from seen [] = []"
| "split_from seen (c # cs) =
     (case next_chunk seen c cs of
        (chunk, rest) \<Rightarrow> chunk # split_from (rev chunk @ seen) rest)"
  by pat_completeness auto
termination
  by (relation "measure (\<lambda>(seen, s). length s)") (auto dest: next_chunk_shorter)

text \<open>\<^verbatim>\<open>chunks = self.wordsep_re.split(text); chunks = [c for c in chunks if c]\<close>\<close>

definition split_chunks :: "string \<Rightarrow> string list" where
  "split_chunks text = split_from [] (munge_whitespace text)"

subsection \<open>TextWrapper._wrap_chunks, with the default settings\<close>

definition width :: nat where
  "width = 70"

text \<open>
  \<^verbatim>\<open>chunk.rfind('-', 0, n)\<close>: the last index below \<open>n\<close> that holds a hyphen
  (Python answers -1 where this is \<open>None\<close>).
\<close>

definition rfind_hyphen :: "string \<Rightarrow> nat \<Rightarrow> nat option" where
  "rfind_hyphen chunk n =
     (let p = take n chunk; k = length (takeWhile (\<lambda>c. \<not> hyphen c) (rev p))
      in if k = length p then None else Some (length p - 1 - k))"

text \<open>
  \<^verbatim>\<open>
  space_left = width - cur_len
  end = space_left
  chunk = reversed_chunks[-1]
  if self.break_on_hyphens and len(chunk) > space_left:
      hyphen = chunk.rfind('-', 0, space_left)
      if hyphen > 0 and any(c != '-' for c in chunk[:hyphen]):
          end = hyphen + 1
  cur_line.append(chunk[:end])
  reversed_chunks[-1] = chunk[end:]
  \<close>
  The caller has \<open>cur_len \<le> width\<close>, so the subtraction does not truncate.
\<close>

definition handle_long_word :: "nat \<Rightarrow> string \<Rightarrow> string \<times> string" where
  "handle_long_word cur_len chunk =
     (let space_left = width - cur_len;
          end = (if length chunk > space_left then
                   (case rfind_hyphen chunk space_left of
                      None \<Rightarrow> space_left
                    | Some h \<Rightarrow>
                        if 0 < h \<and> list_ex (\<lambda>c. \<not> hyphen c) (take h chunk) then h + 1
                        else space_left)
                 else space_left)
      in (take end chunk, drop end chunk))"

text \<open>
  \<^verbatim>\<open>
  while chunks:
      l = len(chunks[-1])
      if cur_len + l <= width:
          cur_line.append(chunks.pop())
          cur_len += l
      else:
          break
  \<close>
\<close>

fun take_fitting :: "nat \<Rightarrow> string list \<Rightarrow> string list \<times> string list" where
  "take_fitting cur_len [] = ([], [])"
| "take_fitting cur_len (c # cs) =
     (if cur_len + length c \<le> width then
        (case take_fitting (cur_len + length c) cs of (t, r) \<Rightarrow> (c # t, r))
      else ([], c # cs))"

text \<open>
  One pass of the outer loop of \<open>_wrap_chunks\<close> on a non-empty stack of chunks:
  the chunks of the line it builds (empty when nothing is left to put on a
  line) and the chunks left. \<open>have_lines\<close> says whether \<open>lines\<close> is non-empty.
\<close>

definition wrap_line :: "bool \<Rightarrow> string list \<Rightarrow> string list \<times> string list" where
  "wrap_line have_lines chunks =
     (let chunks1 = (if strip (hd chunks) = [] \<and> have_lines then tl chunks else chunks);
          (cur_line, rest) = take_fitting 0 chunks1;
          cur_len = sum_list (map length cur_line);
          (cur_line2, rest2) =
            (case rest of
               [] \<Rightarrow> (cur_line, rest)
             | c # cs \<Rightarrow>
                 if length c > width then
                   (case handle_long_word cur_len c of (p, q) \<Rightarrow> (cur_line @ [p], q # cs))
                 else (cur_line, rest));
          cur_line3 = (if cur_line2 \<noteq> [] \<and> strip (last cur_line2) = []
                       then butlast cur_line2 else cur_line2)
      in (cur_line3, rest2))"

definition weight :: "string list \<Rightarrow> nat" where
  "weight chunks = sum_list (map (\<lambda>c. Suc (length c)) chunks)"

lemma take_fitting_split:
  "take_fitting n cs = (t, r) \<Longrightarrow> t @ r = cs"
  by (induction n cs arbitrary: t r rule: take_fitting.induct)
     (auto split: if_splits prod.splits)

lemma take_fitting_fits:
  "take_fitting n cs = (t, r) \<Longrightarrow> n + sum_list (map length t) \<le> width \<or> t = []"
  by (induction n cs arbitrary: t r rule: take_fitting.induct)
     (auto split: if_splits prod.splits)

lemma take_fitting_stops:
  "take_fitting n cs = ([], c # r) \<Longrightarrow> width < n + length c"
  by (cases cs) (auto split: if_splits prod.splits)

lemma weight_append: "weight (xs @ ys) = weight xs + weight ys"
  by (simp add: weight_def)

lemma weight_Cons: "weight (x # xs) = Suc (length x) + weight xs"
  by (simp add: weight_def)

lemma weight_pos: "xs \<noteq> [] \<Longrightarrow> 0 < weight xs"
  by (cases xs) (simp_all add: weight_def)

lemma handle_long_word_shorter:
  assumes "width < length c" and "handle_long_word 0 c = (p, q)"
  shows "length q < length c"
proof -
  have "0 < width" by (simp add: width_def)
  with assms show ?thesis
    by (auto simp: handle_long_word_def Let_def split: option.splits if_splits)
qed

lemma handle_long_word_le:
  "handle_long_word n c = (p, q) \<Longrightarrow> length q \<le> length c"
  by (auto simp: handle_long_word_def Let_def split: option.splits if_splits)

lemma wrap_line_decreases:
  assumes "chunks \<noteq> []" and "wrap_line have_lines chunks = (l, rest)"
  shows "weight rest < weight chunks"
proof -
  define chunks1 where
    "chunks1 = (if strip (hd chunks) = [] \<and> have_lines then tl chunks else chunks)"
  obtain t r where tr: "take_fitting 0 chunks1 = (t, r)" by (cases "take_fitting 0 chunks1")
  have split: "t @ r = chunks1" using tr by (rule take_fitting_split)
  have le1: "weight chunks1 \<le> weight chunks"
    using assms(1) by (cases chunks) (auto simp: chunks1_def weight_Cons)
  have rest_le: "weight rest \<le> weight r"
    using assms(2) tr handle_long_word_le
    by (fastforce simp: wrap_line_def Let_def chunks1_def [symmetric] weight_Cons
        split: list.splits if_splits prod.splits)
  show ?thesis
  proof (cases "t = []")
    case False
    then have "weight r < weight chunks1"
      using split weight_pos [of t] by (metis add.commute less_add_same_cancel1 weight_append)
    with rest_le le1 show ?thesis by linarith
  next
    case True
    show ?thesis
    proof (cases "chunks1 = chunks")
      case False
      then have "weight chunks1 < weight chunks"
        using assms(1) by (cases chunks) (auto simp: chunks1_def weight_Cons split: if_splits)
      moreover have "weight r \<le> weight chunks1" using split by (metis le_add2 weight_append)
      ultimately show ?thesis using rest_le by linarith
    next
      case same: True
      from True split have r: "r = chunks" using same by simp
      then obtain c cs where ccs: "r = c # cs" using assms(1) by (cases r) auto
      have long: "width < length c"
        using take_fitting_stops [of 0 chunks1 c cs] tr True ccs by simp
      obtain p q where pq: "handle_long_word 0 c = (p, q)" by (cases "handle_long_word 0 c")
      have "rest = q # cs"
        using assms(2) tr True ccs long pq
        by (simp add: wrap_line_def Let_def chunks1_def [symmetric])
      moreover have "length q < length c" using long pq by (rule handle_long_word_shorter)
      moreover have "chunks = c # cs" using r ccs by simp
      ultimately show ?thesis by (simp add: weight_Cons)
    qed
  qed
qed

function wrap_chunks :: "bool \<Rightarrow> string list \<Rightarrow> string list" where
  "wrap_chunks have_lines chunks =
     (if chunks = [] then []
      else (case wrap_line have_lines chunks of
              (cur_line, rest) \<Rightarrow>
                if cur_line \<noteq> [] then concat cur_line # wrap_chunks True rest
                else wrap_chunks have_lines rest))"
  by pat_completeness auto
termination
  by (relation "measure (\<lambda>(have_lines, chunks). weight chunks)")
     (auto dest: wrap_line_decreases [OF _ sym])

declare wrap_chunks.simps [simp del]

text \<open>\<^verbatim>\<open>fill\<close>: \<open>"\n".join(self.wrap(text))\<close>\<close>

definition wrap :: "string \<Rightarrow> string list" where
  "wrap text = wrap_chunks False (split_chunks text)"

definition fill :: "string \<Rightarrow> string" where
  "fill text = join [CHR 0x0A] (wrap text)"

text \<open>\<^verbatim>\<open>def reflow(paragraph): return textwrap.fill(textwrap.dedent(paragraph).strip())\<close>\<close>

definition reflow :: "string \<Rightarrow> string" where
  "reflow paragraph = fill (strip (dedent paragraph))"

section \<open>Word-wrapped prose\<close>

text \<open>
  The shape of the message literals handed to \<open>reflow\<close>: a newline, then lines
  that all start with the same indentation, then the indentation of the closing
  quotes.
\<close>

definition literal :: "string \<Rightarrow> string list \<Rightarrow> string" where
  "literal ind ls = CHR 0x0A # concat (map (\<lambda>l. ind @ l @ [CHR 0x0A]) ls) @ ind"

text \<open>Words separated by single spaces.\<close>

definition unwords :: "string list \<Rightarrow> string" where
  "unwords ws = join '' '' ws"

text \<open>
  A plain word: not empty, no longer than a line, and made of characters that are
  neither whitespace nor hyphens.
\<close>

definition plain :: "char \<Rightarrow> bool" where
  "plain c = (\<not> isspace c \<and> \<not> hyphen c)"

definition simple_word :: "string \<Rightarrow> bool" where
  "simple_word w = (w \<noteq> [] \<and> length w \<le> width \<and> list_all plain w)"

text \<open>
  Greedy filling, on words: a line takes the next word as long as the line, a
  space and the word fit in the width.
\<close>

fun take_words :: "nat \<Rightarrow> string list \<Rightarrow> string list \<times> string list" where
  "take_words n [] = ([], [])"
| "take_words n (w # ws) =
     (if n + 1 + length w \<le> width then
        (case take_words (n + 1 + length w) ws of (g, r) \<Rightarrow> (w # g, r))
      else ([], w # ws))"

lemma take_words_length: "length (snd (take_words n ws)) \<le> length ws"
  by (induction n ws rule: take_words.induct) (auto split: prod.splits)

lemma take_words_shorter:
  "(g, r) = take_words n ws \<Longrightarrow> length r < Suc (length ws)"
  using take_words_length [of n ws] by (metis le_imp_less_Suc snd_conv)

function greedy_lines :: "string list \<Rightarrow> string list list" where
  "greedy_lines [] = []"
| "greedy_lines (w # ws) =
     (case take_words (length w) ws of (g, r) \<Rightarrow> (w # g) # greedy_lines r)"
  by pat_completeness auto
termination
  by (relation "measure length") (auto dest: take_words_shorter)

section \<open>The registry: check\<close>

text \<open>\<^verbatim>\<open>iter(())\<close>: the iterator over the empty tuple.\<close>

definition empty_iter :: generator where
  "empty_iter = Generator [] Return"

text \<open>
  \<^verbatim>\<open>
  @functools.wraps(fn)
  def wrapper():
    result = fn()
    return iter(()) if result is None else result
  \<close>
\<close>

definition wrapper :: "fn \<Rightarrow> wrapped" where
  "wrapper fn =
     Fn (func_name fn)
       (Call (written (body fn))
          (case outcome (body fn) of
             Inl e \<Rightarrow> Inl e
           | Inr result \<Rightarrow>
               Inr (case result of None \<Rightarrow> empty_iter | Some g \<Rightarrow> g)))"

text \<open>
  \<^verbatim>\<open>CHECKS.append(wrapper); return wrapper\<close>: the registry is passed in and
  returned.
\<close>

definition check :: "fn \<Rightarrow> wrapped list \<Rightarrow> wrapped \<times> wrapped list" where
  "check fn CHECKS = (wrapper fn, CHECKS @ [wrapper fn])"

section \<open>Subprocesses and the environment\<close>

text \<open>
  What running a command does: the program could not be executed (\<open>NotStarted\<close>
  with the errno, for example ENOENT when no such program is on the path), or it ran
  and exited with a return code, having written some bytes to its standard output.
\<close>

datatype proc = NotStarted nat | Exited nat string

text \<open>
  \<^verbatim>\<open>subprocess.check_output(command)\<close>: the output when the return code is zero,
  \<open>CalledProcessError\<close> when it is not, and \<open>OSError\<close> (in Python 3
  \<open>FileNotFoundError\<close>, a subclass) when the program cannot be executed.
\<close>

definition check_output :: "proc \<Rightarrow> exn + string" where
  "check_output p =
     (case p of
        NotStarted errno \<Rightarrow> Inl (OSError errno)
      | Exited returncode output \<Rightarrow>
          if returncode = 0 then Inr output else Inl (CalledProcessError returncode))"

definition ENOENT :: nat where
  "ENOENT = 2"

type_synonym environ = "string \<rightharpoonup> string"

definition PYTHONWARNINGS_KEY :: string where
  "PYTHONWARNINGS_KEY = ''PYTHONWARNINGS''"

text \<open>\<^verbatim>\<open>del os.environ[key]\<close> raises \<open>KeyError\<close> when the key is absent.\<close>

definition del_environ :: "string \<Rightarrow> environ \<Rightarrow> exn + environ" where
  "del_environ key env =
     (if env key = None then Inl (OtherException ''KeyError'') else Inr (env(key := None)))"

text \<open>
  \<^verbatim>\<open>
  def pip(args):
    PYTHONWARNINGS_KEY = "PYTHONWARNINGS"
    old_pythonwarnings = os.environ.get(PYTHONWARNINGS_KEY)
    new_pythonwarnings = "%s%s" % (
        "ignore:DEPRECATION",
        ",%s" % old_pythonwarnings if old_pythonwarnings else "",
    )
    command = [sys.executable, "-m", "pip"]
    command.extend(args)
    try:
      os.environ[PYTHONWARNINGS_KEY] = new_pythonwarnings
      return subprocess.check_output(command)
    finally:
      if old_pythonwarnings is None:
        del os.environ[PYTHONWARNINGS_KEY]
      else:
        os.environ[PYTHONWARNINGS_KEY] = old_pythonwarnings
  \<close>
  \<open>run\<close> is the operating system: what the command does when started in a given
  environment (the child inherits \<open>os.environ\<close>). The result is the environment
  when \<open>pip\<close> is left, and the exception raised or the bytes returned. An
  exception raised in the \<open>finally\<close> block replaces the outcome of the \<open>try\<close>
  block.
\<close>

definition new_pythonwarnings :: "string option \<Rightarrow> string" where
  "new_pythonwarnings old_pythonwarnings =
     ''ignore:DEPRECATION'' @
       (case old_pythonwarnings of
          None \<Rightarrow> ''''
        | Some v \<Rightarrow> if v \<noteq> '''' then '','' @ v else '''')"

definition pip ::
  "(string list \<Rightarrow> environ \<Rightarrow> proc) \<Rightarrow> string \<Rightarrow> string list \<Rightarrow> environ
     \<Rightarrow> environ \<times> (exn + string)" where
  "pip run sys_executable args env =
     (let old_pythonwarnings = env PYTHONWARNINGS_KEY;
          command = [sys_executable, ''-m'', ''pip''] @ args;
          env1 = env(PYTHONWARNINGS_KEY \<mapsto> new_pythonwarnings old_pythonwarnings);
          result = check_output (run command env1)
      in case old_pythonwarnings of
           None \<Rightarrow>
             (case del_environ PYTHONWARNINGS_KEY env1 of
                Inl e \<Rightarrow> (env1, Inl e)
              | Inr env2 \<Rightarrow> (env2, result))
         | Some v \<Rightarrow> (env1(PYTHONWARNINGS_KEY \<mapsto> v), result))"

text \<open>
  \<^verbatim>\<open>
  def which(name):
    binary = "where" if os.name == "nt" else "which"
    try:
      return subprocess.check_output([binary, name])
    except subprocess.CalledProcessError:
      return None
  \<close>
\<close>

definition which :: "(string list \<Rightarrow> proc) \<Rightarrow> string \<Rightarrow> string \<Rightarrow> exn + string option" where
  "which run os_name name =
     (let binary = (if os_name = ''nt'' then ''where'' else ''which'')
      in case check_output (run [binary, name]) of
           Inr output \<Rightarrow> Inr (Some output)
         | Inl (CalledProcessError returncode) \<Rightarrow> Inr None
         | Inl e \<Rightarrow> Inl e)"

section \<open>Two of the checks\<close>

text \<open>\<^verbatim>\<open>bytes.strip()\<close> removes the ASCII whitespace \<open>b' \t\n\r\x0b\x0c'\<close> at both ends.\<close>

definition bytes_strip :: "string \<Rightarrow> string" where
  "bytes_strip b = rev (dropWhile tw_space (rev (dropWhile tw_space b)))"

text \<open>
  \<^verbatim>\<open>
  is_non_ascii = not all(
      0x20 <= (ord(c) if not isinstance(c, int) else c) <= 0x7E
      for c in binary_hostname
  )
  \<close>
\<close>

definition is_non_ascii :: "string \<Rightarrow> bool" where
  "is_non_ascii binary_hostname =
     (\<not> list_all (\<lambda>c. 0x20 \<le> code c \<and> code c \<le> 0x7E) binary_hostname)"

text \<open>
  \<^verbatim>\<open>"%r" % (b,)\<close> for a \<open>bytes\<close> value in Python 3: \<open>b'...'\<close>, in double quotes
  instead when the bytes hold a \<open>'\<close> and no \<open>"\<close>; the quote character and the
  backslash are escaped, tab, newline and carriage return are written \<open>\t\<close>,
  \<open>\n\<close>, \<open>\r\<close>, and every other byte outside 0x20..0x7E is written \<open>\xNN\<close>.
  \<open>%r\<close> of a \<open>str\<close> is the same without the \<open>b\<close>, and it leaves the printable
  characters above 0x7E as they are.
\<close>

definition hex_digit :: "nat \<Rightarrow> char" where
  "hex_digit n = ''0123456789abcdef'' ! (n mod 16)"

definition repr_char :: "(char \<Rightarrow> bool) \<Rightarrow> char \<Rightarrow> char \<Rightarrow> string" where
  "repr_char printable q c =
     (if c = q \<or> code c = 0x5C then [CHR 0x5C, c]
      else if code c = 0x09 then [CHR 0x5C, CHR ''t'']
      else if code c = 0x0A then [CHR 0x5C, CHR ''n'']
      else if code c = 0x0D then [CHR 0x5C, CHR ''r'']
      else if \<not> printable c then
        [CHR 0x5C, CHR ''x'', hex_digit (code c div 16), hex_digit (code c mod 16)]
      else [c])"

definition repr_quote :: "string \<Rightarrow> char" where
  "repr_quote s = (if CHR 0x27 \<in> set s \<and> CHR 0x22 \<notin> set s then CHR 0x22 else CHR 0x27)"

definition printable_byte :: "char \<Rightarrow> bool" where
  "printable_byte c = (0x20 \<le> code c \<and> code c < 0x7F)"

text \<open>\<^verbatim>\<open>str.isprintable\<close> of one character.\<close>

definition isprintable :: "char \<Rightarrow> bool" where
  "isprintable c =
     ((0x20 \<le> code c \<and> code c \<le> 0x7E) \<or> (0xA1 \<le> code c \<and> code c \<le> 0xAC)
      \<or> 0xAE \<le> code c)"

definition repr_bytes :: "string \<Rightarrow> string" where
  "repr_bytes b =
     ''b'' @ [repr_quote b] @ concat (map (repr_char printable_byte (repr_quote b)) b)
     @ [repr_quote b]"

definition repr_str :: "string \<Rightarrow> string" where
  "repr_str s =
     [repr_quote s] @ concat (map (repr_char isprintable (repr_quote s)) s) @ [repr_quote s]"

text \<open>The two message literals, with \<open>%r\<close> already replaced by \<open>r\<close>.\<close>

definition ascii_hostname_text :: "string \<Rightarrow> string" where
  "ascii_hostname_text r =
     ''\<newline>          Your computer's hostname, '' @ r @ '', contains bytes outside of the\<newline>          printable ASCII range. Some versions of Python have trouble\<newline>          working with such names (https://bugs.python.org/issue26227).\<newline>          Consider changing to a hostname that only contains printable\<newline>          ASCII bytes.\<newline>          ''"

definition simpler_hostname_text :: "string \<Rightarrow> string" where
  "simpler_hostname_text r =
     ''\<newline>          Python can't read your computer's hostname, '' @ r @ ''. This can occur\<newline>          if the hostname contains non-ASCII bytes\<newline>          (https://bugs.python.org/issue26227). Consider changing your\<newline>          hostname, rebooting your machine, and rerunning this diagnosis\<newline>          script to see if the problem is resolved.\<newline>          ''"

text \<open>
  The body of the handler of \<open>UnicodeDecodeError\<close> once \<open>binary_hostname\<close> is
  known: one suggestion is yielded, then \<^verbatim>\<open>raise e\<close>.
\<close>

definition hostname_suggestion :: "string \<Rightarrow> Suggestion" where
  "hostname_suggestion binary_hostname =
     (if is_non_ascii binary_hostname then
        Suggestion ''Use an ASCII hostname''
          (reflow (ascii_hostname_text (repr_bytes binary_hostname)))
      else
        Suggestion ''Use a simpler hostname''
          (reflow (simpler_hostname_text (repr_bytes binary_hostname))))"

text \<open>
  \<^verbatim>\<open>
  @check
  def readable_fqdn():
    try:
      logging.info("socket.getfqdn(): %r", socket.getfqdn())
    except UnicodeDecodeError as e:
      try:
        binary_hostname = subprocess.check_output(["hostname"]).strip()
      except subprocess.CalledProcessError:
        binary_hostname = b"<unavailable>"
      is_non_ascii = ...
      if is_non_ascii:
        ...
        yield Suggestion("Use an ASCII hostname", message)
      else:
        ...
        yield Suggestion("Use a simpler hostname", message)
      raise e
  \<close>
  \<open>getfqdn\<close> is what \<open>socket.getfqdn()\<close> does (it raises or returns a name) and
  \<open>run\<close> the operating system. The function has a \<open>yield\<close>, so a call returns a
  generator and this is its body.
\<close>

definition readable_fqdn :: "exn + string \<Rightarrow> (string list \<Rightarrow> proc) \<Rightarrow> generator" where
  "readable_fqdn getfqdn run =
     (case getfqdn of
        Inr fqdn \<Rightarrow> Generator [Log (''INFO: socket.getfqdn(): '' @ repr_str fqdn)] Return
      | Inl e \<Rightarrow>
          if e = UnicodeDecodeError then
            (case check_output (run [''hostname'']) of
               Inr output \<Rightarrow>
                 Generator [Yield (hostname_suggestion (bytes_strip output))] (Raise e)
             | Inl (CalledProcessError returncode) \<Rightarrow>
                 Generator [Yield (hostname_suggestion ''<unavailable>'')] (Raise e)
             | Inl e' \<Rightarrow> Generator [] (Raise e'))
          else Generator [] (Raise e))"

text \<open>\<^verbatim>\<open>"%o" % n\<close> and \<^verbatim>\<open>"%d" % n\<close>: the digits of \<open>n\<close> in base 8 and in base 10.\<close>

definition digit_char :: "nat \<Rightarrow> char" where
  "digit_char d = ''0123456789abcdef'' ! (d mod 16)"

function oct_digits :: "nat \<Rightarrow> string" where
  "oct_digits n =
     (if n < 8 then [digit_char n] else oct_digits (n div 8) @ [digit_char (n mod 8)])"
  by pat_completeness auto
termination
  by (relation "measure id") auto

declare oct_digits.simps [simp del]

function dec_digits :: "nat \<Rightarrow> string" where
  "dec_digits n =
     (if n < 10 then [digit_char n] else dec_digits (n div 10) @ [digit_char (n mod 10)])"
  by pat_completeness auto
termination
  by (relation "measure id") auto

declare dec_digits.simps [simp del]

definition format_o :: "int \<Rightarrow> string" where
  "format_o n = (if n < 0 then ''-'' @ oct_digits (nat (- n)) else oct_digits (nat n))"

definition format_d :: "int \<Rightarrow> string" where
  "format_d n = (if n < 0 then ''-'' @ dec_digits (nat (- n)) else dec_digits (nat n))"

text \<open>The result of \<open>os.stat\<close>, and \<open>%r\<close> of it.\<close>

record stat_result =
  st_mode :: int
  st_ino :: int
  st_dev :: int
  st_nlink :: int
  st_uid :: int
  st_gid :: int
  st_size :: int
  st_atime :: int
  st_mtime :: int
  st_ctime :: int

definition repr_stat :: "stat_result \<Rightarrow> string" where
  "repr_stat s =
     ''os.stat_result(st_mode='' @ format_d (st_mode s)
     @ '', st_ino='' @ format_d (st_ino s)
     @ '', st_dev='' @ format_d (st_dev s)
     @ '', st_nlink='' @ format_d (st_nlink s)
     @ '', st_uid='' @ format_d (st_uid s)
     @ '', st_gid='' @ format_d (st_gid s)
     @ '', st_size='' @ format_d (st_size s)
     @ '', st_atime='' @ format_d (st_atime s)
     @ '', st_mtime='' @ format_d (st_mtime s)
     @ '', st_ctime='' @ format_d (st_ctime s) @ '')''"

text \<open>
  \<^verbatim>\<open>os.path.join(a, b)\<close> on a POSIX system (the check's own comment: the
  suggestion is for Unices), for a relative \<open>b\<close>.
\<close>

definition path_join :: "string \<Rightarrow> string \<Rightarrow> string" where
  "path_join a b = (if a = [] \<or> last a = CHR ''/'' then a @ b else a @ ''/'' @ b)"

text \<open>
  \<^verbatim>\<open>
  _find_unsafe = re.compile(r'[^\w@%+=:,./-]', re.ASCII).search
  def quote(s):
      if not s:
          return "''"
      if _find_unsafe(s) is None:
          return s
      return "'" + s.replace("'", "'\"'\"'") + "'"
  \<close>
\<close>

definition shell_safe :: "char \<Rightarrow> bool" where
  "shell_safe c =
     ((0x30 \<le> code c \<and> code c \<le> 0x39) \<or> (0x41 \<le> code c \<and> code c \<le> 0x5A)
      \<or> code c = 0x5F \<or> (0x61 \<le> code c \<and> code c \<le> 0x7A)
      \<or> code c = 0x40 \<or> code c = 0x25 \<or> code c = 0x2B \<or> code c = 0x3D
      \<or> code c = 0x3A \<or> code c = 0x2C \<or> code c = 0x2E \<or> code c = 0x2F
      \<or> code c = 0x2D)"

definition quote :: "string \<Rightarrow> string" where
  "quote s =
     (if s = [] then [CHR 0x27, CHR 0x27]
      else if list_all shell_safe s then s
      else [CHR 0x27]
           @ concat (map (\<lambda>c. if code c = 0x27
                                 then [CHR 0x27, CHR 0x22, CHR 0x27, CHR 0x22, CHR 0x27]
                                 else [c]) s)
           @ [CHR 0x27])"

text \<open>\<^verbatim>\<open>path = os.path.join(tempfile.gettempdir(), ".tensorboard-info")\<close>\<close>

definition tensorboardinfo_path :: "string \<Rightarrow> string" where
  "tensorboardinfo_path tempdir = path_join tempdir ''.tensorboard-info''"

definition permissions_text :: string where
  "permissions_text =
     ''\<newline>        The \".tensorboard-info\" directory was created by an old version\<newline>        of TensorBoard, and its permissions are not set correctly; see\<newline>        issue #2010. Change that directory to be world-accessible (may\<newline>        require superuser privilege):\<newline>        ''"

text \<open>
  \<^verbatim>\<open>
  @check
  def stat_tensorboardinfo():
    path = os.path.join(tempfile.gettempdir(), ".tensorboard-info")
    logging.info("directory: %s", path)
    try:
      stat_result = os.stat(path)
    except OSError as e:
      if e.errno == errno.ENOENT:
        logging.info(".tensorboard-info directory does not exist")
        return
      else:
        raise
    logging.info("os.stat(...): %r", stat_result)
    logging.info("mode: 0o%o", stat_result.st_mode)
    if stat_result.st_mode & 0o777 != 0o777:
      preamble = reflow(...)
      quote = getattr(shlex, "quote", None) or pipes.quote
      command = "chmod 777 %s" % quote(path)
      message = "%s\n\n\t%s" % (preamble, command)
      yield Suggestion("Fix permissions on \"%s\"" % path, message)
  \<close>
  \<open>os_stat\<close> is what \<open>os.stat\<close> does on a path: \<open>Inl errno\<close> when it raises
  \<open>OSError\<close>, \<open>Inr stat_result\<close> when it returns. \<open>0o777\<close> is 511.
\<close>

definition stat_tensorboardinfo :: "string \<Rightarrow> (string \<Rightarrow> nat + stat_result) \<Rightarrow> generator" where
  "stat_tensorboardinfo tempdir os_stat =
     (let path = tensorboardinfo_path tempdir;
          log1 = Log (''INFO: directory: '' @ path)
      in case os_stat path of
           Inl errno \<Rightarrow>
             if errno = ENOENT then
               Generator [log1, Log ''INFO: .tensorboard-info directory does not exist''] Return
             else Generator [log1] (Raise (OSError errno))
         | Inr stat_result \<Rightarrow>
             (let log2 = Log (''INFO: os.stat(...): '' @ repr_stat stat_result);
                  log3 = Log (''INFO: mode: 0o'' @ format_o (st_mode stat_result))
              in if and (st_mode stat_result) 511 \<noteq> 511 then
                   (let preamble = reflow permissions_text;
                        command = ''chmod 777 '' @ quote path;
                        message = preamble @ [CHR 0x0A, CHR 0x0A, CHR 0x09] @ command
                    in Generator
                         [log1, log2, log3,
                          Yield (Suggestion (''Fix permissions on \"'' @ path @ ''\"'') message)]
                         Return)
                 else Generator [log1, log2, log3] Return))"

section \<open>The runner's loop\<close>

record state =
  stdout :: "out list"
  suggestions :: "Suggestion list"

definition print :: "string \<Rightarrow> state \<Rightarrow> state" where
  "print s st = st\<lparr>stdout := stdout st @ [Print s]\<rparr>"

text \<open>
  \<^verbatim>\<open>suggestions.extend(it)\<close> appends each item to the list as the iterator
  produces it, in place; when the iterator raises, the exception leaves
  \<open>extend\<close> and the items appended so far stay in the list. The log records the
  body writes between two yields reach the output in the same order.
\<close>

fun extend :: "state \<Rightarrow> event list \<Rightarrow> state" where
  "extend st [] = st"
| "extend st (Log s # es) = extend (print s st) es"
| "extend st (Yield x # es) = extend (st\<lparr>suggestions := suggestions st @ [x]\<rparr>) es"

text \<open>
  \<^verbatim>\<open>
  except Exception:
    traceback.print_exc(file=sys.stdout)
    pass
  \<close>
  The second component is the exception that leaves the \<open>try\<close> statement, if any.
\<close>

definition except_Exception :: "state \<Rightarrow> exn \<Rightarrow> state \<times> exn option" where
  "except_Exception st e =
     (if is_Exception e then (st\<lparr>stdout := stdout st @ [Traceback e]\<rparr>, None)
      else (st, Some e))"

text \<open>
  One pass of the loop body:
  \<^verbatim>\<open>
  print("--- check: %s" % check.__name__)
  try:
    suggestions.extend(check())
  except Exception: ...
  \<close>
\<close>

definition run_check :: "state \<Rightarrow> wrapped \<Rightarrow> state \<times> exn option" where
  "run_check st c =
     (let st1 = print (''--- check: '' @ func_name c) st;
          st2 = foldl (\<lambda>s l. print l s) st1 (written (body c))
      in case outcome (body c) of
           Inl e \<Rightarrow> except_Exception st2 e
         | Inr g \<Rightarrow>
             (let st3 = extend st2 (events g)
              in case ending g of
                   Return \<Rightarrow> (st3, None)
                 | Raise e \<Rightarrow> except_Exception st3 e))"

text \<open>\<^verbatim>\<open>for check in CHECKS: ...\<close>; an exception that is not caught ends the loop.\<close>

fun run_checks :: "state \<Rightarrow> wrapped list \<Rightarrow> state \<times> exn option" where
  "run_checks st [] = (st, None)"
| "run_checks st (c # cs) =
     (case run_check st c of
        (st', None) \<Rightarrow> run_checks st' cs
      | (st', Some e) \<Rightarrow> (st', Some e))"

section \<open>main\<close>

text \<open>\<^verbatim>\<open>markdown_ticks = "``````"\<close>: six backticks.\<close>

definition markdown_ticks :: string where
  "markdown_ticks = replicate 6 (CHR 0x60)"

definition try_each_text :: string where
  "try_each_text =
     ''\<newline>        Please try each suggestion enumerated above to determine whether\<newline>        it solves your problem. If none of these suggestions works,\<newline>        please copy ALL of the above output, including the lines\<newline>        containing only backticks, into your GitHub issue or comment. Be\<newline>        sure to redact any sensitive information.\<newline>        ''"

definition no_action_text :: string where
  "no_action_text =
     ''\<newline>        No action items identified. Please copy ALL of the above output,\<newline>        including the lines containing only backticks, into your GitHub\<newline>        issue or comment. Be sure to redact any sensitive information.\<newline>        ''"

text \<open>
  \<^verbatim>\<open>
  for suggestion in suggestions:
    print()
    print("### Suggestion: %s" % suggestion.headline)
    print()
    print(suggestion.description)
  \<close>
\<close>

definition print_suggestion :: "state \<Rightarrow> Suggestion \<Rightarrow> state" where
  "print_suggestion st suggestion =
     print (description suggestion)
       (print ''''
          (print (''### Suggestion: '' @ headline suggestion)
             (print '''' st)))"

text \<open>
  \<open>main\<close>, from the first \<open>print\<close> to the last. The result is the state when the
  function is left and the exception that left it, if any: \<open>None\<close> means that
  \<open>main\<close> returned, and the script, which ends with the call of \<open>main\<close>, exits
  with status 0. \<open>set_up_logging\<close> writes nothing.
\<close>

definition main :: "wrapped list \<Rightarrow> state \<times> exn option" where
  "main CHECKS =
     (let st0 = \<lparr>stdout = [], suggestions = []\<rparr>;
          st1 = print ''### Diagnostics'' st0;
          st2 = print '''' st1;
          st3 = print markdown_ticks st2
      in case run_checks st3 CHECKS of
           (st4, Some e) \<Rightarrow> (st4, Some e)
         | (st4, None) \<Rightarrow>
             (let st5 = print markdown_ticks st4;
                  st6 = print '''' st5;
                  st7 = print ''End of diagnostics.'' st6;
                  st8 = foldl print_suggestion st7 (suggestions st7);
                  st9 = print '''' st8;
                  st10 = print ''### Next steps'' st9;
                  st11 = print '''' st10
              in if suggestions st11 \<noteq> [] then (print (reflow try_each_text) st11, None)
                 else (print (reflow no_action_text) st11, None)))"

section \<open>What a check contributes\<close>

fun yields :: "event list \<Rightarrow> Suggestion list" where
  "yields [] = []"
| "yields (Log s # es) = yields es"
| "yields (Yield x # es) = x # yields es"

fun logged :: "event list \<Rightarrow> out list" where
  "logged [] = []"
| "logged (Log s # es) = Print s # logged es"
| "logged (Yield x # es) = logged es"

text \<open>The exception a call of the check and the draining of its result ends with, if any.\<close>

definition failure :: "wrapped \<Rightarrow> exn option" where
  "failure c =
     (case outcome (body c) of
        Inl e \<Rightarrow> Some e
      | Inr g \<Rightarrow> (case ending g of Return \<Rightarrow> None | Raise e \<Rightarrow> Some e))"

text \<open>The suggestions the check yields before it finishes or raises.\<close>

definition yielded :: "wrapped \<Rightarrow> Suggestion list" where
  "yielded c = (case outcome (body c) of Inl e \<Rightarrow> [] | Inr g \<Rightarrow> yields (events g))"

text \<open>What the check writes: the framing line, its log records, the traceback if it fails.\<close>

definition transcript :: "wrapped \<Rightarrow> out list" where
  "transcript c =
     Print (''--- check: '' @ func_name c) # map Print (written (body c))
     @ (case outcome (body c) of Inl e \<Rightarrow> [] | Inr g \<Rightarrow> logged (events g))
     @ (case failure c of None \<Rightarrow> [] | Some e \<Rightarrow> [Traceback e])"

section \<open>Lemmas on the loop\<close>

lemma stdout_print: "stdout (print s st) = stdout st @ [Print s]"
  by (simp add: print_def)

lemma suggestions_print: "suggestions (print s st) = suggestions st"
  by (simp add: print_def)

lemma stdout_written:
  "stdout (foldl (\<lambda>s l. print l s) st ls) = stdout st @ map Print ls"
  by (induction ls arbitrary: st) (simp_all add: stdout_print)

lemma suggestions_written:
  "suggestions (foldl (\<lambda>s l. print l s) st ls) = suggestions st"
  by (induction ls arbitrary: st) (simp_all add: suggestions_print)

lemma suggestions_extend: "suggestions (extend st es) = suggestions st @ yields es"
  by (induction st es rule: extend.induct) (simp_all add: suggestions_print)

lemma stdout_extend: "stdout (extend st es) = stdout st @ logged es"
  by (induction st es rule: extend.induct) (simp_all add: stdout_print)

lemma run_check_caught:
  assumes "\<forall>e. failure c = Some e \<longrightarrow> is_Exception e"
  shows "snd (run_check st c) = None"
    and "suggestions (fst (run_check st c)) = suggestions st @ yielded c"
    and "stdout (fst (run_check st c)) = stdout st @ transcript c"
  using assms
  by (auto simp: run_check_def Let_def failure_def yielded_def transcript_def
      except_Exception_def suggestions_extend stdout_extend stdout_written
      suggestions_written stdout_print suggestions_print
      split: sum.splits ending.splits)

section \<open>Properties of the registry\<close>

text \<open>
  C4. The value the wrapped procedure returns is always a generator (the type of
  \<open>wrapper\<close> leaves no \<open>None\<close>): where the procedure returns \<open>None\<close> the wrapper
  returns the empty iterator, and running that check adds no suggestion, raises
  nothing and writes only the framing line and the procedure's own log records
  (no traceback); where the procedure returns a generator the wrapper returns it
  unchanged. The wrapper keeps the procedure's name and log records, and
  \<open>check\<close> appends the wrapper to the registry.
\<close>

theorem check_wrapper_never_None:
  "(outcome (body fn) = Inr None \<longrightarrow>
      outcome (body (wrapper fn)) = Inr empty_iter \<and>
      events empty_iter = [] \<and> ending empty_iter = Return \<and>
      suggestions (fst (run_check st (wrapper fn))) = suggestions st \<and>
      snd (run_check st (wrapper fn)) = None \<and>
      stdout (fst (run_check st (wrapper fn))) =
        stdout st @ Print (''--- check: '' @ func_name fn) # map Print (written (body fn))) \<and>
   (\<forall>g. outcome (body fn) = Inr (Some g) \<longrightarrow> outcome (body (wrapper fn)) = Inr g) \<and>
   (\<forall>r. outcome (body fn) = Inr r \<longrightarrow> (\<exists>g. outcome (body (wrapper fn)) = Inr g)) \<and>
   func_name (wrapper fn) = func_name fn \<and>
   written (body (wrapper fn)) = written (body fn) \<and>
   check fn CHECKS = (wrapper fn, CHECKS @ [wrapper fn])"
  by (auto simp: wrapper_def empty_iter_def check_def run_check_def Let_def
      stdout_written suggestions_written stdout_print suggestions_print
      split: option.splits)

theorem check_wrapper_never_None_witness:
  "outcome (body (Fn ''general'' (Call [''INFO: os.name: posix''] (Inr None)))) = Inr None \<and>
   outcome (body (wrapper (Fn ''general'' (Call [''INFO: os.name: posix''] (Inr None)))))
     = Inr (Generator [] Return) \<and>
   suggestions (fst (run_check \<lparr>stdout = [], suggestions = []\<rparr>
     (wrapper (Fn ''general'' (Call [''INFO: os.name: posix''] (Inr None)))))) = [] \<and>
   stdout (fst (run_check \<lparr>stdout = [], suggestions = []\<rparr>
     (wrapper (Fn ''general'' (Call [''INFO: os.name: posix''] (Inr None))))))
     = [Print ''--- check: general'', Print ''INFO: os.name: posix'']"
  using check_wrapper_never_None
    [of "Fn ''general'' (Call [''INFO: os.name: posix''] (Inr None))"
        "\<lparr>stdout = [], suggestions = []\<rparr>" "[]"]
  by (simp add: empty_iter_def)


section \<open>Properties of the runner\<close>

lemma run_checks_caught:
  assumes "\<forall>c\<in>set cs. \<forall>e. failure c = Some e \<longrightarrow> is_Exception e"
  shows "snd (run_checks st cs) = None \<and>
         suggestions (fst (run_checks st cs)) = suggestions st @ concat (map yielded cs) \<and>
         stdout (fst (run_checks st cs)) = stdout st @ concat (map transcript cs)"
  using assms
proof (induction cs arbitrary: st)
  case Nil
  then show ?case by simp
next
  case (Cons c cs)
  have c: "\<forall>e. failure c = Some e \<longrightarrow> is_Exception e" using Cons.prems by simp
  obtain st' where st': "run_check st c = (st', None)"
    using run_check_caught(1) [OF c, of st] by (cases "run_check st c") simp
  have "suggestions st' = suggestions st @ yielded c"
    and "stdout st' = stdout st @ transcript c"
    using run_check_caught(2,3) [OF c, of st] st' by simp_all
  moreover have "\<forall>c\<in>set cs. \<forall>e. failure c = Some e \<longrightarrow> is_Exception e"
    using Cons.prems by simp
  ultimately show ?case using Cons.IH [of st'] st' by simp
qed

text \<open>The lines of the report before the first check and after the last.\<close>

definition report_head :: "out list" where
  "report_head = [Print ''### Diagnostics'', Print '''', Print markdown_ticks]"

definition suggestion_section :: "Suggestion \<Rightarrow> out list" where
  "suggestion_section s =
     [Print '''', Print (''### Suggestion: '' @ headline s), Print '''', Print (description s)]"

definition report_tail :: "Suggestion list \<Rightarrow> out list" where
  "report_tail ss =
     [Print markdown_ticks, Print '''', Print ''End of diagnostics.'']
     @ concat (map suggestion_section ss)
     @ [Print '''', Print ''### Next steps'', Print '''',
        Print (if ss \<noteq> [] then reflow try_each_text else reflow no_action_text)]"

lemma suggestions_print_suggestions:
  "suggestions (foldl print_suggestion st ss) = suggestions st"
  by (induction ss arbitrary: st) (simp_all add: print_suggestion_def suggestions_print)

lemma stdout_print_suggestions:
  "stdout (foldl print_suggestion st ss) = stdout st @ concat (map suggestion_section ss)"
  by (induction ss arbitrary: st)
     (simp_all add: print_suggestion_def suggestion_section_def stdout_print)

lemma state_eqI:
  fixes a b :: state
  shows "stdout a = stdout b \<Longrightarrow> suggestions a = suggestions b \<Longrightarrow> a = b"
  by simp

lemma main_head:
  "print markdown_ticks (print '''' (print ''### Diagnostics''
     \<lparr>stdout = [], suggestions = []\<rparr>))
   = \<lparr>stdout = report_head, suggestions = []\<rparr>"
  by (simp add: print_def report_head_def)

lemma main_returned:
  assumes "run_checks \<lparr>stdout = report_head, suggestions = []\<rparr> CHECKS = (st, None)"
  shows "main CHECKS =
           (\<lparr>stdout = stdout st @ report_tail (suggestions st), suggestions = suggestions st\<rparr>,
            None)"
  unfolding main_def Let_def main_head
  by (simp add: assms)
     (auto intro!: state_eqI simp: report_tail_def stdout_print suggestions_print
        suggestions_print_suggestions stdout_print_suggestions)

lemma main_aborted:
  assumes "run_checks \<lparr>stdout = report_head, suggestions = []\<rparr> CHECKS = (st, Some e)"
  shows "main CHECKS = (st, Some e)"
  unfolding main_def Let_def main_head by (simp add: assms)

lemma main_caught:
  assumes "\<forall>c\<in>set CHECKS. \<forall>e. failure c = Some e \<longrightarrow> is_Exception e"
  shows "main CHECKS =
           (\<lparr>stdout = report_head @ concat (map transcript CHECKS)
                        @ report_tail (concat (map yielded CHECKS)),
             suggestions = concat (map yielded CHECKS)\<rparr>, None)"
proof -
  let ?st0 = "\<lparr>stdout = report_head, suggestions = []\<rparr>"
  obtain st where st: "run_checks ?st0 CHECKS = (st, None)"
    using run_checks_caught [OF assms, of ?st0] by (cases "run_checks ?st0 CHECKS") simp
  have "suggestions st = concat (map yielded CHECKS)"
    and "stdout st = report_head @ concat (map transcript CHECKS)"
    using run_checks_caught [OF assms, of ?st0] st by simp_all
  then show ?thesis using main_returned [OF st] by simp
qed

lemma reflow_try_each:
  "reflow try_each_text =
     ''Please try each suggestion enumerated above to determine whether it\<newline>solves your problem. If none of these suggestions works, please copy\<newline>ALL of the above output, including the lines containing only\<newline>backticks, into your GitHub issue or comment. Be sure to redact any\<newline>sensitive information.''"
  by code_simp

lemma reflow_no_action:
  "reflow no_action_text =
     ''No action items identified. Please copy ALL of the above output,\<newline>including the lines containing only backticks, into your GitHub issue\<newline>or comment. Be sure to redact any sensitive information.''"
  by code_simp

text \<open>The claim's reading of what a check contributes: nothing once it fails.\<close>

definition nonfailing_yields :: "wrapped \<Rightarrow> Suggestion list" where
  "nonfailing_yields c = (if failure c = None then yielded c else [])"

text \<open>A check that yields one suggestion and then raises.\<close>

definition yield_then_raise :: wrapped where
  "yield_then_raise =
     Fn ''yield_then_raise''
       (Call [] (Inr (Generator [Yield (Suggestion ''Fix X'' ''Do Y'')]
                                (Raise (OtherException ''ValueError'')))))"

text \<open>
  C1, as stated, fails: with the one check \<open>yield_then_raise\<close> registered, the
  runner's list holds the suggestion yielded before the failure, where the claim
  has the failing check contribute nothing.
\<close>

theorem accumulated_concat_nonfailing_counterexample:
  "suggestions (fst (main [yield_then_raise])) = [Suggestion ''Fix X'' ''Do Y''] \<and>
   concat (map nonfailing_yields [yield_then_raise]) = [] \<and>
   suggestions (fst (main [yield_then_raise]))
     \<noteq> concat (map nonfailing_yields [yield_then_raise])"
proof -
  have "\<forall>c\<in>set [yield_then_raise]. \<forall>e. failure c = Some e \<longrightarrow> is_Exception e"
    by (simp add: failure_def yield_then_raise_def)
  from main_caught [OF this] show ?thesis
    by (simp add: yielded_def nonfailing_yields_def failure_def yield_then_raise_def)
qed

text \<open>
  C1, amended. Where every exception the checks raise is an \<open>Exception\<close> (what the
  runner's handler catches), \<open>main\<close> returns and its list of suggestions is the
  concatenation, in registration order, of the suggestions each check yielded
  before it returned or raised: a check that fails contributes what it yielded
  before the failure, which is nothing when it failed before its first yield.
\<close>

theorem accumulated_is_concat_yielded:
  assumes "\<forall>c\<in>set CHECKS. \<forall>e. failure c = Some e \<longrightarrow> is_Exception e"
  shows "snd (main CHECKS) = None \<and>
         suggestions (fst (main CHECKS)) = concat (map yielded CHECKS)"
  using main_caught [OF assms] by simp

text \<open>A check that returns two suggestions, one that yields one and raises, one that returns one.\<close>

definition three_checks :: "wrapped list" where
  "three_checks =
     [Fn ''a'' (Call [] (Inr (Generator [Yield (Suggestion ''A1'' ''a1''), Log ''INFO: a'',
                                          Yield (Suggestion ''A2'' ''a2'')] Return))),
      yield_then_raise,
      Fn ''b'' (Call [] (Inr (Generator [Yield (Suggestion ''B'' ''b'')] Return)))]"

theorem accumulated_is_concat_yielded_witness:
  "snd (main three_checks) = None \<and>
   suggestions (fst (main three_checks)) =
     [Suggestion ''A1'' ''a1'', Suggestion ''A2'' ''a2'', Suggestion ''Fix X'' ''Do Y'',
      Suggestion ''B'' ''b'']"
proof -
  have "\<forall>c\<in>set three_checks. \<forall>e. failure c = Some e \<longrightarrow> is_Exception e"
    by (simp add: three_checks_def failure_def yield_then_raise_def)
  from accumulated_is_concat_yielded [OF this] show ?thesis
    by (simp add: three_checks_def yielded_def yield_then_raise_def)
qed

text \<open>
  C2, as stated, fails. With \<open>readable_fqdn\<close> registered on a machine where
  \<open>socket.getfqdn()\<close> raises \<open>UnicodeDecodeError\<close> and \<open>hostname\<close> prints
  the bytes \<open>h\xc3\xa9\<close>, the check yields a suggestion and then raises; the
  runner's list holds that suggestion when \<open>main\<close> returns.
\<close>

definition fqdn_check :: wrapped where
  "fqdn_check =
     wrapper (generator_function ''readable_fqdn''
       (readable_fqdn (Inl UnicodeDecodeError)
          (\<lambda>command. Exited 0 [CHR ''h'', CHR 0xC3, CHR 0xA9, CHR 0x0A])))"

lemma fqdn_check_body:
  "body fqdn_check =
     Call [] (Inr (Generator
       [Yield (hostname_suggestion [CHR ''h'', CHR 0xC3, CHR 0xA9])]
       (Raise UnicodeDecodeError)))"
  by (simp add: fqdn_check_def wrapper_def generator_function_def readable_fqdn_def check_output_def
      bytes_strip_def tw_space_def code_def)

theorem raising_check_keeps_nothing_counterexample:
  "failure fqdn_check = Some UnicodeDecodeError \<and>
   yielded fqdn_check = [hostname_suggestion [CHR ''h'', CHR 0xC3, CHR 0xA9]] \<and>
   headline (hostname_suggestion [CHR ''h'', CHR 0xC3, CHR 0xA9]) = ''Use an ASCII hostname'' \<and>
   snd (main [fqdn_check]) = None \<and>
   suggestions (fst (main [fqdn_check])) = [hostname_suggestion [CHR ''h'', CHR 0xC3, CHR 0xA9]]"
proof -
  have f: "failure fqdn_check = Some UnicodeDecodeError"
    by (simp add: failure_def fqdn_check_body)
  have y: "yielded fqdn_check = [hostname_suggestion [CHR ''h'', CHR 0xC3, CHR 0xA9]]"
    by (simp add: yielded_def fqdn_check_body)
  have h: "headline (hostname_suggestion [CHR ''h'', CHR 0xC3, CHR 0xA9]) = ''Use an ASCII hostname''"
    by (simp add: hostname_suggestion_def is_non_ascii_def code_def)
  have "\<forall>c\<in>set [fqdn_check]. \<forall>e. failure c = Some e \<longrightarrow> is_Exception e"
    using f by simp
  from main_caught [OF this] f y h show ?thesis by simp
qed

text \<open>
  C2, amended. A check whose body raises an \<open>Exception\<close> after having yielded
  some suggestions keeps them: after the pass of the loop the runner's list is the
  list before it followed by the suggestions yielded before the failure, in
  order; the traceback is the last item written, and the loop goes on.
\<close>

theorem raising_check_keeps_yielded:
  assumes "outcome (body c) = Inr g" and "ending g = Raise e" and "is_Exception e"
  shows "suggestions (fst (run_check st c)) = suggestions st @ yields (events g) \<and>
         snd (run_check st c) = None \<and>
         last (stdout (fst (run_check st c))) = Traceback e"
  using assms
  by (simp add: run_check_def Let_def except_Exception_def suggestions_extend
      suggestions_written suggestions_print)

theorem raising_check_keeps_yielded_witness:
  "outcome (body yield_then_raise) =
     Inr (Generator [Yield (Suggestion ''Fix X'' ''Do Y'')] (Raise (OtherException ''ValueError''))) \<and>
   suggestions (fst (run_check \<lparr>stdout = [], suggestions = [Suggestion ''S'' ''T'']\<rparr>
      yield_then_raise)) = [Suggestion ''S'' ''T'', Suggestion ''Fix X'' ''Do Y''] \<and>
   last (stdout (fst (run_check \<lparr>stdout = [], suggestions = [Suggestion ''S'' ''T'']\<rparr>
      yield_then_raise))) = Traceback (OtherException ''ValueError'')"
  using raising_check_keeps_yielded
    [of yield_then_raise
        "Generator [Yield (Suggestion ''Fix X'' ''Do Y'')] (Raise (OtherException ''ValueError''))"
        "OtherException ''ValueError''" "\<lparr>stdout = [], suggestions = [Suggestion ''S'' ''T'']\<rparr>"]
  by (simp add: yield_then_raise_def)

text \<open>
  What a check writes before the runner's handler is reached: the framing line,
  the log records of the call, the log records of the generator's body.
\<close>

definition check_log :: "wrapped \<Rightarrow> out list" where
  "check_log c =
     Print (''--- check: '' @ func_name c) # map Print (written (body c))
     @ (case outcome (body c) of Inl e \<Rightarrow> [] | Inr g \<Rightarrow> logged (events g))"

lemma transcript_check_log:
  "transcript c = check_log c @ (case failure c of None \<Rightarrow> [] | Some e \<Rightarrow> [Traceback e])"
  by (simp add: transcript_def check_log_def)

lemma no_traceback_logged: "Traceback e \<notin> set (logged es)"
  by (induction es rule: logged.induct) simp_all

lemma no_traceback_check_log: "Traceback e \<notin> set (check_log c)"
  by (auto simp: check_log_def no_traceback_logged split: sum.splits)

lemma run_check_uncaught:
  assumes "failure c = Some e" and "\<not> is_Exception e"
  shows "snd (run_check st c) = Some e"
    and "suggestions (fst (run_check st c)) = suggestions st @ yielded c"
    and "stdout (fst (run_check st c)) = stdout st @ check_log c"
  using assms
  by (auto simp: run_check_def Let_def failure_def yielded_def check_log_def
      except_Exception_def suggestions_extend stdout_extend stdout_written
      suggestions_written stdout_print suggestions_print
      split: sum.splits ending.splits)

lemma run_checks_uncaught:
  assumes "\<forall>c\<in>set pre. \<forall>e. failure c = Some e \<longrightarrow> is_Exception e"
    and "failure c = Some e" and "\<not> is_Exception e"
  shows "snd (run_checks st (pre @ c # post)) = Some e \<and>
         suggestions (fst (run_checks st (pre @ c # post)))
           = suggestions st @ concat (map yielded pre) @ yielded c \<and>
         stdout (fst (run_checks st (pre @ c # post)))
           = stdout st @ concat (map transcript pre) @ check_log c"
  using assms(1)
proof (induction pre arbitrary: st)
  case Nil
  obtain st' where st': "run_check st c = (st', Some e)"
    using run_check_uncaught(1) [OF assms(2,3), of st] by (cases "run_check st c") simp
  then show ?case
    using run_check_uncaught(2,3) [OF assms(2,3), of st] by simp
next
  case (Cons p pre)
  have p: "\<forall>e. failure p = Some e \<longrightarrow> is_Exception e" using Cons.prems by simp
  obtain st' where st': "run_check st p = (st', None)"
    using run_check_caught(1) [OF p, of st] by (cases "run_check st p") simp
  have "suggestions st' = suggestions st @ yielded p"
    and "stdout st' = stdout st @ transcript p"
    using run_check_caught(2,3) [OF p, of st] st' by simp_all
  moreover have "\<forall>c\<in>set pre. \<forall>e. failure c = Some e \<longrightarrow> is_Exception e"
    using Cons.prems by simp
  ultimately show ?case using Cons.IH [of st'] st' by simp
qed

lemma main_uncaught:
  assumes "\<forall>c\<in>set pre. \<forall>e. failure c = Some e \<longrightarrow> is_Exception e"
    and "failure c = Some e" and "\<not> is_Exception e"
  shows "main (pre @ c # post) =
           (\<lparr>stdout = report_head @ concat (map transcript pre) @ check_log c,
             suggestions = concat (map yielded pre) @ yielded c\<rparr>, Some e)"
proof -
  let ?st0 = "\<lparr>stdout = report_head, suggestions = []\<rparr>"
  note r = run_checks_uncaught [OF assms, of ?st0 post]
  obtain st where st: "run_checks ?st0 (pre @ c # post) = (st, Some e)"
    using r by (cases "run_checks ?st0 (pre @ c # post)") simp
  have "suggestions st = concat (map yielded pre) @ yielded c"
    and "stdout st = report_head @ concat (map transcript pre) @ check_log c"
    using r st by simp_all
  then show ?thesis using main_aborted [OF st] by simp
qed

text \<open>If a check raises what the handler does not catch, the loop does not return.\<close>

lemma run_checks_returns_caught:
  "snd (run_checks st cs) = None \<Longrightarrow> \<forall>c\<in>set cs. \<forall>e. failure c = Some e \<longrightarrow> is_Exception e"
proof (induction cs arbitrary: st)
  case Nil
  then show ?case by simp
next
  case (Cons c cs)
  show ?case
  proof (cases "\<forall>e. failure c = Some e \<longrightarrow> is_Exception e")
    case True
    obtain st' where st': "run_check st c = (st', None)"
      using run_check_caught(1) [OF True, of st] by (cases "run_check st c") simp
    with Cons.prems have "snd (run_checks st' cs) = None" by simp
    from Cons.IH [OF this] True show ?thesis by simp
  next
    case False
    then obtain e where e: "failure c = Some e" "\<not> is_Exception e" by blast
    obtain st' where "run_check st c = (st', Some e)"
      using run_check_uncaught(1) [OF e, of st] by (cases "run_check st c") simp
    with Cons.prems show ?thesis by simp
  qed
qed

lemma main_returns_caught:
  assumes "snd (main CHECKS) = None"
  shows "\<forall>c\<in>set CHECKS. \<forall>e. failure c = Some e \<longrightarrow> is_Exception e"
proof -
  let ?st0 = "\<lparr>stdout = report_head, suggestions = []\<rparr>"
  obtain st r where r: "run_checks ?st0 CHECKS = (st, r)" by (cases "run_checks ?st0 CHECKS")
  have "r = None"
  proof (cases r)
    case None
    then show ?thesis .
  next
    case (Some e)
    with r main_aborted [of CHECKS st e] assms show ?thesis by simp
  qed
  with r have "snd (run_checks ?st0 CHECKS) = None" by simp
  then show ?thesis by (rule run_checks_returns_caught)
qed

text \<open>
  C3, as stated, fails: the handler is \<open>except Exception\<close>, and \<open>SystemExit\<close>
  (raised by \<open>sys.exit\<close>) is no \<open>Exception\<close>. With a check that raises it
  registered between two others, no traceback is written, the check after it is
  never invoked, no report is rendered and the exception leaves \<open>main\<close>.
\<close>

definition exit_between :: "wrapped list" where
  "exit_between =
     [Fn ''general'' (Call [''INFO: os.name: posix''] (Inr empty_iter)),
      Fn ''quits'' (Call [] (Inl SystemExit)),
      Fn ''tensorboard_binary_path'' (Call [''INFO: which tensorboard: None''] (Inr empty_iter))]"

theorem failing_check_fatal_counterexample:
  "main exit_between =
     (\<lparr>stdout =
         [Print ''### Diagnostics'', Print '''', Print markdown_ticks,
          Print ''--- check: general'', Print ''INFO: os.name: posix'',
          Print ''--- check: quits''],
       suggestions = []\<rparr>, Some SystemExit)"
proof -
  have pre: "\<forall>c\<in>set [Fn ''general'' (Call [''INFO: os.name: posix''] (Inr empty_iter))].
               \<forall>e. failure c = Some e \<longrightarrow> is_Exception e"
    by (simp add: failure_def empty_iter_def)
  have c: "failure (Fn ''quits'' (Call [] (Inl SystemExit))) = Some SystemExit"
    by (simp add: failure_def)
  have "\<not> is_Exception SystemExit" by simp
  from main_uncaught [OF pre c this,
      of "[Fn ''tensorboard_binary_path'' (Call [''INFO: which tensorboard: None'']
             (Inr empty_iter))]"]
  show ?thesis
    by (simp add: exit_between_def transcript_def check_log_def failure_def yielded_def
        empty_iter_def report_head_def)
qed

text \<open>
  C3, amended. Where the exceptions the checks raise are instances of
  \<open>Exception\<close>: every check is invoked, in order, whatever the checks before it
  did; what a check writes is its framing line, its log records and, when it
  fails, the traceback of its exception; after the last check the report is
  completed (closing fence, end marker, suggestions, next steps) and \<open>main\<close>
  returns, so the script exits with status 0. An exception that is no
  \<open>Exception\<close> (\<open>SystemExit\<close>, \<open>KeyboardInterrupt\<close>) is not caught: the output
  ends with what its check wrote before raising, without a traceback, no later
  check is invoked, no report is rendered, and the exception leaves \<open>main\<close>.
\<close>

theorem failing_check_never_fatal:
  "((\<forall>c\<in>set CHECKS. \<forall>e. failure c = Some e \<longrightarrow> is_Exception e) \<longrightarrow>
      snd (main CHECKS) = None \<and>
      stdout (fst (main CHECKS)) =
        report_head @ concat (map transcript CHECKS)
        @ report_tail (concat (map yielded CHECKS)) \<and>
      (\<forall>c\<in>set CHECKS. \<forall>e. failure c = Some e \<longrightarrow>
         Traceback e \<in> set (transcript c) \<and>
         Traceback e \<in> set (stdout (fst (main CHECKS)))) \<and>
      (\<forall>c\<in>set CHECKS.
         Print (''--- check: '' @ func_name c) \<in> set (stdout (fst (main CHECKS))))) \<and>
   (\<forall>pre c post e.
      CHECKS = pre @ c # post \<and>
      (\<forall>p\<in>set pre. \<forall>e'. failure p = Some e' \<longrightarrow> is_Exception e') \<and>
      failure c = Some e \<and> \<not> is_Exception e \<longrightarrow>
        snd (main CHECKS) = Some e \<and>
        stdout (fst (main CHECKS)) = report_head @ concat (map transcript pre) @ check_log c \<and>
        Traceback e \<notin> set (check_log c))"
proof -
  have tb: "Traceback e \<in> set (transcript c)" if "failure c = Some e" for c e
    using that by (simp add: transcript_def)
  have fr: "Print (''--- check: '' @ func_name c) \<in> set (transcript c)" for c
    by (simp add: transcript_def)
  have caught: "snd (main CHECKS) = None \<and>
      stdout (fst (main CHECKS)) =
        report_head @ concat (map transcript CHECKS)
        @ report_tail (concat (map yielded CHECKS)) \<and>
      (\<forall>c\<in>set CHECKS. \<forall>e. failure c = Some e \<longrightarrow>
         Traceback e \<in> set (transcript c) \<and>
         Traceback e \<in> set (stdout (fst (main CHECKS)))) \<and>
      (\<forall>c\<in>set CHECKS.
         Print (''--- check: '' @ func_name c) \<in> set (stdout (fst (main CHECKS))))"
    if "\<forall>c\<in>set CHECKS. \<forall>e. failure c = Some e \<longrightarrow> is_Exception e"
    using main_caught [OF that] tb fr by auto
  have uncaught: "snd (main CHECKS) = Some e \<and>
        stdout (fst (main CHECKS)) = report_head @ concat (map transcript pre) @ check_log c \<and>
        Traceback e \<notin> set (check_log c)"
    if "CHECKS = pre @ c # post"
      and "\<forall>p\<in>set pre. \<forall>e'. failure p = Some e' \<longrightarrow> is_Exception e'"
      and "failure c = Some e" and "\<not> is_Exception e"
    for pre c post e
    using main_uncaught [OF that(2,3,4), of post] that(1) no_traceback_check_log by simp
  show ?thesis using caught uncaught by blast
qed

text \<open>A check that fails at the call, between two that succeed.\<close>

definition import_fails :: "wrapped list" where
  "import_fails =
     [Fn ''general'' (Call [''INFO: os.name: posix''] (Inr empty_iter)),
      Fn ''tensorflow_python_version'' (Call [] (Inl (OtherException ''ImportError''))),
      Fn ''tensorboard_binary_path'' (Call [''INFO: which tensorboard: None''] (Inr empty_iter))]"

lemma import_fails_caught:
  "\<forall>c\<in>set import_fails. \<forall>e. failure c = Some e \<longrightarrow> is_Exception e"
  by (simp add: import_fails_def failure_def empty_iter_def)

theorem failing_check_never_fatal_witness:
  "snd (main import_fails) = None \<and>
   stdout (fst (main import_fails)) =
     [Print ''### Diagnostics'', Print '''', Print markdown_ticks,
      Print ''--- check: general'', Print ''INFO: os.name: posix'',
      Print ''--- check: tensorflow_python_version'', Traceback (OtherException ''ImportError''),
      Print ''--- check: tensorboard_binary_path'', Print ''INFO: which tensorboard: None'',
      Print markdown_ticks, Print '''', Print ''End of diagnostics.'',
      Print '''', Print ''### Next steps'', Print '''',
      Print (reflow no_action_text)]"
proof -
  from failing_check_never_fatal [of import_fails] import_fails_caught
  have "snd (main import_fails) = None \<and>
        stdout (fst (main import_fails)) =
          report_head @ concat (map transcript import_fails)
          @ report_tail (concat (map yielded import_fails))"
    by blast
  then show ?thesis
    by (simp add: import_fails_def transcript_def failure_def yielded_def empty_iter_def
        report_head_def report_tail_def)
qed

text \<open>
  C6. When \<open>main\<close> returns, every check has run: the list of suggestions is what
  the checks yielded, in order, and the output is the opening lines, what each
  check wrote, the closing fence, the end marker, one section per suggestion and
  the next steps, whose last line is the footer: the "try each suggestion" text
  when the checks yielded a suggestion, the "No action items identified" text
  when they yielded none. With no check registered the report is the opening
  lines, the two fences with nothing between them, the end marker and the "No
  action items identified" footer.
\<close>

theorem report_footer:
  "(snd (main CHECKS) = None \<longrightarrow>
      suggestions (fst (main CHECKS)) = concat (map yielded CHECKS) \<and>
      stdout (fst (main CHECKS)) =
        [Print ''### Diagnostics'', Print '''', Print markdown_ticks]
        @ concat (map transcript CHECKS)
        @ [Print markdown_ticks, Print '''', Print ''End of diagnostics.'']
        @ concat (map suggestion_section (concat (map yielded CHECKS)))
        @ [Print '''', Print ''### Next steps'', Print '''',
           Print (if concat (map yielded CHECKS) \<noteq> [] then
                    ''Please try each suggestion enumerated above to determine whether it\<newline>solves your problem. If none of these suggestions works, please copy\<newline>ALL of the above output, including the lines containing only\<newline>backticks, into your GitHub issue or comment. Be sure to redact any\<newline>sensitive information.''
                  else
                    ''No action items identified. Please copy ALL of the above output,\<newline>including the lines containing only backticks, into your GitHub issue\<newline>or comment. Be sure to redact any sensitive information.'')] \<and>
      last (stdout (fst (main CHECKS))) =
        Print (if concat (map yielded CHECKS) \<noteq> [] then
                 ''Please try each suggestion enumerated above to determine whether it\<newline>solves your problem. If none of these suggestions works, please copy\<newline>ALL of the above output, including the lines containing only\<newline>backticks, into your GitHub issue or comment. Be sure to redact any\<newline>sensitive information.''
               else
                 ''No action items identified. Please copy ALL of the above output,\<newline>including the lines containing only backticks, into your GitHub issue\<newline>or comment. Be sure to redact any sensitive information.'')) \<and>
   main [] =
     (\<lparr>stdout =
         [Print ''### Diagnostics'', Print '''', Print markdown_ticks,
          Print markdown_ticks, Print '''', Print ''End of diagnostics.'',
          Print '''', Print ''### Next steps'', Print '''',
          Print ''No action items identified. Please copy ALL of the above output,\<newline>including the lines containing only backticks, into your GitHub issue\<newline>or comment. Be sure to redact any sensitive information.''],
        suggestions = []\<rparr>, None) \<and>
   markdown_ticks = [CHR 0x60, CHR 0x60, CHR 0x60, CHR 0x60, CHR 0x60, CHR 0x60]"
proof -
  let ?advice = "''Please try each suggestion enumerated above to determine whether it\<newline>solves your problem. If none of these suggestions works, please copy\<newline>ALL of the above output, including the lines containing only\<newline>backticks, into your GitHub issue or comment. Be sure to redact any\<newline>sensitive information.''"
  let ?nothing = "''No action items identified. Please copy ALL of the above output,\<newline>including the lines containing only backticks, into your GitHub issue\<newline>or comment. Be sure to redact any sensitive information.''"
  have tail: "report_tail ss =
      [Print markdown_ticks, Print '''', Print ''End of diagnostics.'']
      @ concat (map suggestion_section ss)
      @ [Print '''', Print ''### Next steps'', Print '''',
         Print (if ss \<noteq> [] then ?advice else ?nothing)]" for ss
    by (simp add: report_tail_def reflow_try_each reflow_no_action)
  have returned: "suggestions (fst (main CHECKS)) = concat (map yielded CHECKS) \<and>
      stdout (fst (main CHECKS)) =
        [Print ''### Diagnostics'', Print '''', Print markdown_ticks]
        @ concat (map transcript CHECKS)
        @ [Print markdown_ticks, Print '''', Print ''End of diagnostics.'']
        @ concat (map suggestion_section (concat (map yielded CHECKS)))
        @ [Print '''', Print ''### Next steps'', Print '''',
           Print (if concat (map yielded CHECKS) \<noteq> [] then ?advice else ?nothing)] \<and>
      last (stdout (fst (main CHECKS))) =
        Print (if concat (map yielded CHECKS) \<noteq> [] then ?advice else ?nothing)"
    if "snd (main CHECKS) = None"
  proof -
    have out: "stdout (fst (main CHECKS)) =
        report_head @ concat (map transcript CHECKS)
        @ report_tail (concat (map yielded CHECKS))"
      and sug: "suggestions (fst (main CHECKS)) = concat (map yielded CHECKS)"
      using main_caught [OF main_returns_caught [OF that]] by simp_all
    have out': "stdout (fst (main CHECKS)) =
        [Print ''### Diagnostics'', Print '''', Print markdown_ticks]
        @ concat (map transcript CHECKS)
        @ [Print markdown_ticks, Print '''', Print ''End of diagnostics.'']
        @ concat (map suggestion_section (concat (map yielded CHECKS)))
        @ [Print '''', Print ''### Next steps'', Print '''',
           Print (if concat (map yielded CHECKS) \<noteq> [] then ?advice else ?nothing)]"
      unfolding out tail report_head_def by simp
    have "last (stdout (fst (main CHECKS))) =
        Print (if concat (map yielded CHECKS) \<noteq> [] then ?advice else ?nothing)"
      unfolding out tail by simp
    with sug out' show ?thesis by blast
  qed
  have "\<forall>c\<in>set ([] :: wrapped list). \<forall>e. failure c = Some e \<longrightarrow> is_Exception e" by simp
  from main_caught [OF this]
  have empty: "main [] =
     (\<lparr>stdout =
         [Print ''### Diagnostics'', Print '''', Print markdown_ticks,
          Print markdown_ticks, Print '''', Print ''End of diagnostics.'',
          Print '''', Print ''### Next steps'', Print '''', Print ?nothing],
        suggestions = []\<rparr>, None)"
    by (simp add: tail report_head_def)
  have ticks: "markdown_ticks = [CHR 0x60, CHR 0x60, CHR 0x60, CHR 0x60, CHR 0x60, CHR 0x60]"
    by (simp add: markdown_ticks_def numeral_eq_Suc)
  show ?thesis using returned empty ticks by blast
qed

text \<open>
  Three checks of which two yield suggestions, and three checks that yield none
  (one of them fails).
\<close>

theorem report_footer_witness:
  "snd (main three_checks) = None \<and>
   concat (map yielded three_checks) =
     [Suggestion ''A1'' ''a1'', Suggestion ''A2'' ''a2'', Suggestion ''Fix X'' ''Do Y'',
      Suggestion ''B'' ''b''] \<and>
   last (stdout (fst (main three_checks))) =
     Print ''Please try each suggestion enumerated above to determine whether it\<newline>solves your problem. If none of these suggestions works, please copy\<newline>ALL of the above output, including the lines containing only\<newline>backticks, into your GitHub issue or comment. Be sure to redact any\<newline>sensitive information.'' \<and>
   snd (main import_fails) = None \<and>
   concat (map yielded import_fails) = [] \<and>
   last (stdout (fst (main import_fails))) =
     Print ''No action items identified. Please copy ALL of the above output,\<newline>including the lines containing only backticks, into your GitHub issue\<newline>or comment. Be sure to redact any sensitive information.''"
proof -
  have "\<forall>c\<in>set three_checks. \<forall>e. failure c = Some e \<longrightarrow> is_Exception e"
    by (simp add: three_checks_def failure_def yield_then_raise_def)
  from main_caught [OF this] have 1: "snd (main three_checks) = None" by simp
  have y1: "concat (map yielded three_checks) =
     [Suggestion ''A1'' ''a1'', Suggestion ''A2'' ''a2'', Suggestion ''Fix X'' ''Do Y'',
      Suggestion ''B'' ''b'']"
    by (simp add: three_checks_def yielded_def yield_then_raise_def)
  from main_caught [OF import_fails_caught] have 2: "snd (main import_fails) = None" by simp
  have y2: "concat (map yielded import_fails) = []"
    by (simp add: import_fails_def yielded_def empty_iter_def)
  from report_footer [of three_checks] 1 y1
  have f1: "last (stdout (fst (main three_checks))) =
     Print ''Please try each suggestion enumerated above to determine whether it\<newline>solves your problem. If none of these suggestions works, please copy\<newline>ALL of the above output, including the lines containing only\<newline>backticks, into your GitHub issue or comment. Be sure to redact any\<newline>sensitive information.''"
    by simp
  from report_footer [of import_fails] 2 y2
  have f2: "last (stdout (fst (main import_fails))) =
     Print ''No action items identified. Please copy ALL of the above output,\<newline>including the lines containing only backticks, into your GitHub issue\<newline>or comment. Be sure to redact any sensitive information.''"
    by simp
  show ?thesis using 1 y1 f1 2 y2 f2 by blast
qed

section \<open>Properties of the probes\<close>

text \<open>
  C7. Whatever the subprocess call does (it returns the output, or raises),
  the environment when \<open>pip\<close> is left is the environment it was entered with:
  \<open>PYTHONWARNINGS\<close> has its prior value, or is absent if it was absent, and no
  other variable has changed. The command ran with \<open>PYTHONWARNINGS\<close> overridden,
  and its outcome is the outcome of \<open>pip\<close>.
\<close>

theorem pip_restores_environ:
  "fst (pip run sys_executable args env) = env \<and>
   fst (pip run sys_executable args env) PYTHONWARNINGS_KEY = env PYTHONWARNINGS_KEY \<and>
   snd (pip run sys_executable args env) =
     check_output (run ([sys_executable, ''-m'', ''pip''] @ args)
       (env(PYTHONWARNINGS_KEY \<mapsto> new_pythonwarnings (env PYTHONWARNINGS_KEY))))"
proof -
  have "fst (pip run sys_executable args env) = env"
    by (cases "env PYTHONWARNINGS_KEY") (auto simp: pip_def Let_def del_environ_def)
  moreover have "snd (pip run sys_executable args env) =
     check_output (run ([sys_executable, ''-m'', ''pip''] @ args)
       (env(PYTHONWARNINGS_KEY \<mapsto> new_pythonwarnings (env PYTHONWARNINGS_KEY))))"
    by (cases "env PYTHONWARNINGS_KEY") (auto simp: pip_def Let_def del_environ_def)
  ultimately show ?thesis by simp
qed

text \<open>
  C8, as stated, fails: where the lookup command cannot be executed (no \<open>which\<close>
  on the path, errno ENOENT), \<open>check_output\<close> raises \<open>OSError\<close>, which the
  handler of \<open>CalledProcessError\<close> does not catch, and \<open>which\<close> raises it.
\<close>

theorem which_command_not_found_counterexample:
  "check_output (NotStarted ENOENT) = Inl (OSError ENOENT) \<and>
   which (\<lambda>command. NotStarted ENOENT) ''posix'' ''tensorboard'' = Inl (OSError ENOENT) \<and>
   which (\<lambda>command. NotStarted ENOENT) ''posix'' ''tensorboard'' \<noteq> Inr None"
  by (simp add: which_def check_output_def)

text \<open>
  C8, amended. The lookup command is \<open>where\<close> on \<open>nt\<close> and \<open>which\<close> elsewhere.
  If it runs and exits with a nonzero status, \<open>which\<close> returns \<open>None\<close>; if it
  exits with status 0, \<open>which\<close> returns its output; if it cannot be executed,
  \<open>which\<close> raises the \<open>OSError\<close>.
\<close>

theorem which_outcomes:
  assumes "binary = (if os_name = ''nt'' then ''where'' else ''which'')"
  shows "(\<forall>returncode output. run [binary, name] = Exited returncode output \<and> returncode \<noteq> 0
            \<longrightarrow> which run os_name name = Inr None) \<and>
         (\<forall>output. run [binary, name] = Exited 0 output
            \<longrightarrow> which run os_name name = Inr (Some output)) \<and>
         (\<forall>errno. run [binary, name] = NotStarted errno
            \<longrightarrow> which run os_name name = Inl (OSError errno))"
  using assms by (auto simp: which_def check_output_def)

theorem which_outcomes_witness:
  "which (\<lambda>command. if command = [''which'', ''tensorboard''] then Exited 1 '''' else NotStarted ENOENT)
     ''posix'' ''tensorboard'' = Inr None \<and>
   which (\<lambda>command. if command = [''where'', ''tensorboard'']
                     then Exited 0 ''tensorboard.exe'' else NotStarted ENOENT)
     ''nt'' ''tensorboard'' = Inr (Some ''tensorboard.exe'')"
  using which_outcomes
    [of "''which''" "''posix''"
        "\<lambda>command. if command = [''which'', ''tensorboard''] then Exited 1 '''' else NotStarted ENOENT"
        "''tensorboard''"]
    which_outcomes
    [of "''where''" "''nt''"
        "\<lambda>command. if command = [''where'', ''tensorboard'']
                   then Exited 0 ''tensorboard.exe'' else NotStarted ENOENT"
        "''tensorboard''"]
  by simp

text \<open>
  C9, as stated, fails: where \<open>socket.getfqdn()\<close> raises \<open>UnicodeDecodeError\<close>
  and the \<open>hostname\<close> command cannot be executed, \<open>check_output\<close> raises
  \<open>OSError\<close> inside the handler; the check yields no suggestion and ends with
  that \<open>OSError\<close>, not with the original exception.
\<close>

theorem readable_fqdn_no_hostname_counterexample:
  "readable_fqdn (Inl UnicodeDecodeError) (\<lambda>command. NotStarted ENOENT)
     = Generator [] (Raise (OSError ENOENT)) \<and>
   yields (events (readable_fqdn (Inl UnicodeDecodeError) (\<lambda>command. NotStarted ENOENT))) = [] \<and>
   ending (readable_fqdn (Inl UnicodeDecodeError) (\<lambda>command. NotStarted ENOENT))
     \<noteq> Raise UnicodeDecodeError"
  by (simp add: readable_fqdn_def check_output_def)

text \<open>
  C9, amended. When \<open>socket.getfqdn()\<close> raises \<open>UnicodeDecodeError\<close> and the
  \<open>hostname\<close> command runs, the check takes the stripped output as the raw
  hostname (\<open><unavailable>\<close> when the command exits with a nonzero status),
  yields exactly one suggestion and then raises the original exception. The
  suggestion is "Use an ASCII hostname" when some byte of the raw hostname is
  outside 0x20..0x7E and "Use a simpler hostname" otherwise; its description is
  the reflowed message holding \<open>%r\<close> of the raw hostname. When the \<open>hostname\<close>
  command cannot be executed, whatever the error number, the check yields no
  suggestion and raises the \<open>OSError\<close> of the failed execution in place of the
  original exception.
\<close>

theorem readable_fqdn_decoding_failure:
  assumes "getfqdn = Inl UnicodeDecodeError"
  shows "(run [''hostname''] = Exited returncode output \<and>
          binary_hostname = (if returncode = 0 then bytes_strip output else ''<unavailable>'')
          \<longrightarrow>
            readable_fqdn getfqdn run =
              Generator [Yield (hostname_suggestion binary_hostname)] (Raise UnicodeDecodeError) \<and>
            length (yields (events (readable_fqdn getfqdn run))) = 1 \<and>
            hostname_suggestion binary_hostname =
              (if list_ex (\<lambda>c. code c < 0x20 \<or> 0x7E < code c) binary_hostname
               then Suggestion ''Use an ASCII hostname''
                      (reflow (ascii_hostname_text (repr_bytes binary_hostname)))
               else Suggestion ''Use a simpler hostname''
                      (reflow (simpler_hostname_text (repr_bytes binary_hostname))))) \<and>
         (run [''hostname''] = NotStarted errno \<longrightarrow>
            readable_fqdn getfqdn run = Generator [] (Raise (OSError errno)) \<and>
            yields (events (readable_fqdn getfqdn run)) = [] \<and>
            ending (readable_fqdn getfqdn run) \<noteq> Raise UnicodeDecodeError)"
proof -
  have eq: "is_non_ascii binary_hostname
        = list_ex (\<lambda>c. code c < 0x20 \<or> 0x7E < code c) binary_hostname"
    by (auto simp: is_non_ascii_def list_all_iff list_ex_iff not_le)
  have gen: "readable_fqdn getfqdn run =
      Generator [Yield (hostname_suggestion binary_hostname)] (Raise UnicodeDecodeError)"
    if "run [''hostname''] = Exited returncode output"
      and "binary_hostname = (if returncode = 0 then bytes_strip output else ''<unavailable>'')"
    using assms that by (simp add: readable_fqdn_def check_output_def)
  have len: "length (yields (events (readable_fqdn getfqdn run))) = 1"
    if "run [''hostname''] = Exited returncode output"
      and "binary_hostname = (if returncode = 0 then bytes_strip output else ''<unavailable>'')"
    by (simp add: gen [OF that])
  have sug: "hostname_suggestion binary_hostname =
           (if list_ex (\<lambda>c. code c < 0x20 \<or> 0x7E < code c) binary_hostname
            then Suggestion ''Use an ASCII hostname''
                   (reflow (ascii_hostname_text (repr_bytes binary_hostname)))
            else Suggestion ''Use a simpler hostname''
                   (reflow (simpler_hostname_text (repr_bytes binary_hostname))))"
    by (simp only: hostname_suggestion_def eq)
  have not_started: "readable_fqdn getfqdn run = Generator [] (Raise (OSError errno))"
    if "run [''hostname''] = NotStarted errno"
    using assms that by (simp add: readable_fqdn_def check_output_def)
  have exited: "readable_fqdn getfqdn run =
              Generator [Yield (hostname_suggestion binary_hostname)] (Raise UnicodeDecodeError) \<and>
            length (yields (events (readable_fqdn getfqdn run))) = 1 \<and>
            hostname_suggestion binary_hostname =
              (if list_ex (\<lambda>c. code c < 0x20 \<or> 0x7E < code c) binary_hostname
               then Suggestion ''Use an ASCII hostname''
                      (reflow (ascii_hostname_text (repr_bytes binary_hostname)))
               else Suggestion ''Use a simpler hostname''
                      (reflow (simpler_hostname_text (repr_bytes binary_hostname))))"
    if "run [''hostname''] = Exited returncode output \<and>
        binary_hostname = (if returncode = 0 then bytes_strip output else ''<unavailable>'')"
  proof -
    from that have a: "run [''hostname''] = Exited returncode output"
      and b: "binary_hostname = (if returncode = 0 then bytes_strip output else ''<unavailable>'')"
      by blast+
    show ?thesis by (intro conjI) (rule gen [OF a b], rule len [OF a b], rule sug)
  qed
  have failed: "readable_fqdn getfqdn run = Generator [] (Raise (OSError errno)) \<and>
            yields (events (readable_fqdn getfqdn run)) = [] \<and>
            ending (readable_fqdn getfqdn run) \<noteq> Raise UnicodeDecodeError"
    if "run [''hostname''] = NotStarted errno"
    by (simp add: not_started [OF that])
  show ?thesis
  proof (rule conjI)
    show "run [''hostname''] = Exited returncode output \<and>
          binary_hostname = (if returncode = 0 then bytes_strip output else ''<unavailable>'')
          \<longrightarrow>
            readable_fqdn getfqdn run =
              Generator [Yield (hostname_suggestion binary_hostname)] (Raise UnicodeDecodeError) \<and>
            length (yields (events (readable_fqdn getfqdn run))) = 1 \<and>
            hostname_suggestion binary_hostname =
              (if list_ex (\<lambda>c. code c < 0x20 \<or> 0x7E < code c) binary_hostname
               then Suggestion ''Use an ASCII hostname''
                      (reflow (ascii_hostname_text (repr_bytes binary_hostname)))
               else Suggestion ''Use a simpler hostname''
                      (reflow (simpler_hostname_text (repr_bytes binary_hostname))))"
      by (rule impI) (rule exited)
    show "run [''hostname''] = NotStarted errno \<longrightarrow>
            readable_fqdn getfqdn run = Generator [] (Raise (OSError errno)) \<and>
            yields (events (readable_fqdn getfqdn run)) = [] \<and>
            ending (readable_fqdn getfqdn run) \<noteq> Raise UnicodeDecodeError"
      by (rule impI) (rule failed)
  qed
qed

lemma hostname_suggestion_non_ascii:
  "hostname_suggestion [CHR ''h'', CHR 0xC3, CHR 0xA9] =
     Suggestion ''Use an ASCII hostname''
       (''Your computer's hostname, b'h'' @ [CHR 0x5C] @ ''xc3'' @ [CHR 0x5C]
        @ ''xa9', contains bytes outside of the\<newline>printable ASCII range. Some versions of Python have trouble working\<newline>with such names (https://bugs.python.org/issue26227). Consider\<newline>changing to a hostname that only contains printable ASCII bytes.'')"
  by code_simp

lemma hostname_suggestion_unavailable:
  "hostname_suggestion ''<unavailable>'' =
     Suggestion ''Use a simpler hostname''
       ''Python can't read your computer's hostname, b'<unavailable>'. This can\<newline>occur if the hostname contains non-ASCII bytes\<newline>(https://bugs.python.org/issue26227). Consider changing your hostname,\<newline>rebooting your machine, and rerunning this diagnosis script to see if\<newline>the problem is resolved.''"
  by code_simp

theorem readable_fqdn_decoding_failure_witness:
  "readable_fqdn (Inl UnicodeDecodeError)
     (\<lambda>command. Exited 0 [CHR ''h'', CHR 0xC3, CHR 0xA9, CHR 0x0A]) =
     Generator
       [Yield (Suggestion ''Use an ASCII hostname''
          (''Your computer's hostname, b'h'' @ [CHR 0x5C] @ ''xc3'' @ [CHR 0x5C]
           @ ''xa9', contains bytes outside of the\<newline>printable ASCII range. Some versions of Python have trouble working\<newline>with such names (https://bugs.python.org/issue26227). Consider\<newline>changing to a hostname that only contains printable ASCII bytes.''))]
       (Raise UnicodeDecodeError) \<and>
   readable_fqdn (Inl UnicodeDecodeError) (\<lambda>command. Exited 1 '''') =
     Generator
       [Yield (Suggestion ''Use a simpler hostname''
          ''Python can't read your computer's hostname, b'<unavailable>'. This can\<newline>occur if the hostname contains non-ASCII bytes\<newline>(https://bugs.python.org/issue26227). Consider changing your hostname,\<newline>rebooting your machine, and rerunning this diagnosis script to see if\<newline>the problem is resolved.'')]
       (Raise UnicodeDecodeError) \<and>
   readable_fqdn (Inl UnicodeDecodeError) (\<lambda>command. NotStarted 13) =
     Generator [] (Raise (OSError 13))"
proof -
  have strip: "bytes_strip [CHR ''h'', CHR 0xC3, CHR 0xA9, CHR 0x0A] = [CHR ''h'', CHR 0xC3, CHR 0xA9]"
    by (simp add: bytes_strip_def tw_space_def code_def)
  show ?thesis
    using readable_fqdn_decoding_failure
      [of "Inl UnicodeDecodeError" "\<lambda>command. Exited 0 [CHR ''h'', CHR 0xC3, CHR 0xA9, CHR 0x0A]"
          0 "[CHR ''h'', CHR 0xC3, CHR 0xA9, CHR 0x0A]" "[CHR ''h'', CHR 0xC3, CHR 0xA9]"]
      readable_fqdn_decoding_failure
      [of "Inl UnicodeDecodeError" "\<lambda>command. Exited 1 ''''" 1 "''''" "''<unavailable>''"]
      readable_fqdn_decoding_failure
      [of "Inl UnicodeDecodeError" "\<lambda>command. NotStarted 13" _ _ _ 13]
    by (simp add: strip hostname_suggestion_non_ascii hostname_suggestion_unavailable)
qed


section \<open>Properties of stat_tensorboardinfo\<close>

lemma stat_cases:
  "stat_tensorboardinfo tempdir os_stat =
     (case os_stat (tensorboardinfo_path tempdir) of
        Inl errno \<Rightarrow>
          if errno = ENOENT then
            Generator [Log (''INFO: directory: '' @ tensorboardinfo_path tempdir),
                       Log ''INFO: .tensorboard-info directory does not exist''] Return
          else Generator [Log (''INFO: directory: '' @ tensorboardinfo_path tempdir)]
                 (Raise (OSError errno))
      | Inr s \<Rightarrow>
          Generator
            ([Log (''INFO: directory: '' @ tensorboardinfo_path tempdir),
              Log (''INFO: os.stat(...): '' @ repr_stat s),
              Log (''INFO: mode: 0o'' @ format_o (st_mode s))]
             @ (if and (st_mode s) 511 \<noteq> 511 then
                  [Yield (Suggestion (''Fix permissions on \"'' @ tensorboardinfo_path tempdir @ ''\"'')
                     (reflow permissions_text @ [CHR 0x0A, CHR 0x0A, CHR 0x09]
                      @ ''chmod 777 '' @ quote (tensorboardinfo_path tempdir)))]
                else []))
            Return)"
  unfolding stat_tensorboardinfo_def tensorboardinfo_path_def Let_def
  by (simp split: sum.splits)


lemma registered_raise:
  assumes "ending g = Raise e" and "is_Exception e"
  shows "snd (run_check st (wrapper (generator_function name g))) = None"
    and "last (stdout (fst (run_check st (wrapper (generator_function name g))))) = Traceback e"
  using assms
  by (simp_all add: run_check_def wrapper_def generator_function_def Let_def
      except_Exception_def)

text \<open>
  C10. The check yields exactly one suggestion if and only if \<open>os.stat\<close> of the
  \<open>.tensorboard-info\<close> path in the temporary directory succeeds and the mode has
  \<open>st_mode & 0o777 != 0o777\<close>; it never yields more than one. If \<open>os.stat\<close> fails
  with ENOENT the check returns with no suggestion; if it fails with another errno
  the check raises that \<open>OSError\<close>, with no suggestion, and the runner's handler
  writes its traceback and goes on; if \<open>os.stat\<close> succeeds the check returns.
\<close>

theorem stat_tensorboardinfo_suggestion:
  assumes "g = stat_tensorboardinfo tempdir os_stat"
    and "path = tensorboardinfo_path tempdir"
  shows "(length (yields (events g)) = 1 \<longleftrightarrow>
            (\<exists>s. os_stat path = Inr s \<and> and (st_mode s) 511 \<noteq> 511)) \<and>
         length (yields (events g)) \<le> 1 \<and>
         (os_stat path = Inl ENOENT \<longrightarrow> ending g = Return \<and> yields (events g) = []) \<and>
         (\<forall>errno. os_stat path = Inl errno \<and> errno \<noteq> ENOENT \<longrightarrow>
            ending g = Raise (OSError errno) \<and> yields (events g) = [] \<and>
            snd (run_check st (wrapper (generator_function ''stat_tensorboardinfo'' g))) = None \<and>
            last (stdout (fst (run_check st
                    (wrapper (generator_function ''stat_tensorboardinfo'' g)))))
              = Traceback (OSError errno)) \<and>
         (\<forall>s. os_stat path = Inr s \<longrightarrow> ending g = Return)"
proof (cases "os_stat path")
  case (Inl errno)
  show ?thesis
  proof (cases "errno = ENOENT")
    case True
    have "g = Generator [Log (''INFO: directory: '' @ path),
                       Log ''INFO: .tensorboard-info directory does not exist''] Return"
      using assms Inl True by (simp add: stat_cases)
    then show ?thesis using Inl True by simp
  next
    case False
    have g: "g = Generator [Log (''INFO: directory: '' @ path)] (Raise (OSError errno))"
      using assms Inl False by (simp add: stat_cases)
    then have "ending g = Raise (OSError errno)" by simp
    from registered_raise [OF this, of st "''stat_tensorboardinfo''"] g
    show ?thesis using Inl False by simp
  qed
next
  case (Inr s)
  have "g = Generator
            ([Log (''INFO: directory: '' @ path),
              Log (''INFO: os.stat(...): '' @ repr_stat s),
              Log (''INFO: mode: 0o'' @ format_o (st_mode s))]
             @ (if and (st_mode s) 511 \<noteq> 511 then
                  [Yield (Suggestion (''Fix permissions on \"'' @ path @ ''\"'')
                     (reflow permissions_text @ [CHR 0x0A, CHR 0x0A, CHR 0x09]
                      @ ''chmod 777 '' @ quote path))]
                else []))
            Return"
    using assms Inr by (simp add: stat_cases)
  then show ?thesis using Inr by simp
qed


text \<open>A directory with mode \<open>0o40755\<close>.\<close>

definition old_directory :: stat_result where
  "old_directory =
     \<lparr>st_mode = 16877, st_ino = 2, st_dev = 64, st_nlink = 2, st_uid = 1000, st_gid = 1000,
      st_size = 4096, st_atime = 0, st_mtime = 0, st_ctime = 0\<rparr>"

lemma reflow_permissions:
  "reflow permissions_text =
     ''The \".tensorboard-info\" directory was created by an old version of\<newline>TensorBoard, and its permissions are not set correctly; see issue\<newline>#2010. Change that directory to be world-accessible (may require\<newline>superuser privilege):''"
  by code_simp

lemma stat_tensorboardinfo_old_directory:
  "stat_tensorboardinfo ''/tmp'' (\<lambda>p. Inr old_directory) =
     Generator
       [Log ''INFO: directory: /tmp/.tensorboard-info'',
        Log ''INFO: os.stat(...): os.stat_result(st_mode=16877, st_ino=2, st_dev=64, st_nlink=2, st_uid=1000, st_gid=1000, st_size=4096, st_atime=0, st_mtime=0, st_ctime=0)'',
        Log ''INFO: mode: 0o40755'',
        Yield (Suggestion ''Fix permissions on \"/tmp/.tensorboard-info\"''
          (''The \".tensorboard-info\" directory was created by an old version of\<newline>TensorBoard, and its permissions are not set correctly; see issue\<newline>#2010. Change that directory to be world-accessible (may require\<newline>superuser privilege):\<newline>\<newline>''
           @ [CHR 0x09] @ ''chmod 777 /tmp/.tensorboard-info''))]
       Return"
  by (simp add: stat_cases tensorboardinfo_path_def path_join_def old_directory_def
      repr_stat_def format_d_def format_o_def dec_digits.simps oct_digits.simps
      digit_char_def reflow_permissions quote_def shell_safe_def code_def)

theorem stat_tensorboardinfo_suggestion_witness:
  "and (st_mode old_directory) 511 \<noteq> 511 \<and>
   length (yields (events (stat_tensorboardinfo ''/tmp'' (\<lambda>p. Inr old_directory)))) = 1 \<and>
   yields (events (stat_tensorboardinfo ''/tmp'' (\<lambda>p. Inr old_directory))) =
     [Suggestion ''Fix permissions on \"/tmp/.tensorboard-info\"''
        (''The \".tensorboard-info\" directory was created by an old version of\<newline>TensorBoard, and its permissions are not set correctly; see issue\<newline>#2010. Change that directory to be world-accessible (may require\<newline>superuser privilege):\<newline>\<newline>''
         @ [CHR 0x09] @ ''chmod 777 /tmp/.tensorboard-info'')] \<and>
   ending (stat_tensorboardinfo ''/tmp'' (\<lambda>p. Inl ENOENT)) = Return \<and>
   yields (events (stat_tensorboardinfo ''/tmp'' (\<lambda>p. Inl ENOENT))) = [] \<and>
   ending (stat_tensorboardinfo ''/tmp'' (\<lambda>p. Inl 13)) = Raise (OSError 13) \<and>
   last (stdout (fst (run_check \<lparr>stdout = [], suggestions = []\<rparr>
     (wrapper (generator_function ''stat_tensorboardinfo''
        (stat_tensorboardinfo ''/tmp'' (\<lambda>p. Inl 13))))))) = Traceback (OSError 13)"
proof -
  let ?st = "\<lparr>stdout = [], suggestions = []\<rparr>"
  have mode: "and (st_mode old_directory) 511 \<noteq> 511"
    by (simp add: old_directory_def)
  note T = stat_tensorboardinfo_suggestion [OF refl refl, of _ _ ?st]
  have one: "length (yields (events (stat_tensorboardinfo ''/tmp'' (\<lambda>p. Inr old_directory)))) = 1"
    using T [of "''/tmp''" "\<lambda>p. Inr old_directory", THEN conjunct1] mode by blast
  have ys: "yields (events (stat_tensorboardinfo ''/tmp'' (\<lambda>p. Inr old_directory))) =
     [Suggestion ''Fix permissions on \"/tmp/.tensorboard-info\"''
        (''The \".tensorboard-info\" directory was created by an old version of\<newline>TensorBoard, and its permissions are not set correctly; see issue\<newline>#2010. Change that directory to be world-accessible (may require\<newline>superuser privilege):\<newline>\<newline>''
         @ [CHR 0x09] @ ''chmod 777 /tmp/.tensorboard-info'')]"
    unfolding stat_tensorboardinfo_old_directory generator.sel by (simp only: yields.simps)
  have enoent: "ending (stat_tensorboardinfo ''/tmp'' (\<lambda>p. Inl ENOENT)) = Return \<and>
      yields (events (stat_tensorboardinfo ''/tmp'' (\<lambda>p. Inl ENOENT))) = []"
    using T [of "''/tmp''" "\<lambda>p. Inl ENOENT", THEN conjunct2, THEN conjunct2, THEN conjunct1]
    by blast
  have "(13::nat) \<noteq> ENOENT" by (simp add: ENOENT_def)
  then have eacces: "ending (stat_tensorboardinfo ''/tmp'' (\<lambda>p. Inl 13)) = Raise (OSError 13) \<and>
      last (stdout (fst (run_check ?st
        (wrapper (generator_function ''stat_tensorboardinfo''
          (stat_tensorboardinfo ''/tmp'' (\<lambda>p. Inl 13))))))) = Traceback (OSError 13)"
    using T [of "''/tmp''" "\<lambda>p. Inl 13", THEN conjunct2, THEN conjunct2, THEN conjunct2,
        THEN conjunct1]
    by blast
  show ?thesis using mode one ys enoent eacces by blast
qed

section \<open>Lemmas on wrapping plain words\<close>

subsection \<open>Splitting plain words\<close>

lemma plain_not_space: "plain c \<Longrightarrow> \<not> tw_space c"
  by (auto simp: plain_def isspace_def tw_space_def)

lemma plain_not_blank: "plain c \<Longrightarrow> \<not> blank c"
  by (auto simp: plain_def isspace_def blank_def)

lemma plain_not_hyphen: "plain c \<Longrightarrow> \<not> hyphen c"
  by (simp add: plain_def)

lemma space_is_space: "tw_space CHR '' ''" "isspace CHR '' ''" "\<not> hyphen CHR '' ''"
  by (simp_all add: tw_space_def isspace_def hyphen_def code_def)

lemma em_dash_ahead_plain: "\<not> hyphen c \<Longrightarrow> \<not> em_dash_ahead (c # cs)"
  by (simp add: em_dash_ahead_def)

lemma word_rest_plain:
  assumes "list_all plain w" and "r = [] \<or> hd r = CHR '' ''"
  shows "word_rest seen (w @ r) = (w, r)"
  using assms
proof (induction w arbitrary: seen)
  case Nil
  then show ?case
    by (cases r) (auto simp: space_is_space)
next
  case (Cons c w)
  then have c: "\<not> hyphen c" "\<not> tw_space c"
    by (simp_all add: plain_not_hyphen plain_not_space)
  from Cons have "word_rest (c # seen) (w @ r) = (w, r)" by simp
  with c show ?case by (simp add: em_dash_ahead_plain)
qed

lemma next_chunk_word:
  assumes "plain c" and "list_all plain w" and "r = [] \<or> hd r = CHR '' ''"
  shows "next_chunk seen c (w @ r) = (c # w, r)"
  using assms word_rest_plain [of w r "c # seen"]
  by (simp add: next_chunk_def plain_not_space plain_not_hyphen em_dash_ahead_plain)

lemma next_chunk_space:
  assumes "r \<noteq> []" and "plain (hd r)"
  shows "next_chunk seen CHR '' '' r = ('' '', r)"
  using assms by (cases r) (auto simp: next_chunk_def space_is_space plain_not_space)

text \<open>The chunks of plain words separated by single spaces.\<close>

fun spaced :: "string list \<Rightarrow> string list" where
  "spaced [] = []"
| "spaced [w] = [w]"
| "spaced (w # ws) = w # '' '' # spaced ws"

lemma unwords_Cons: "ws \<noteq> [] \<Longrightarrow> unwords (w # ws) = w @ '' '' @ unwords ws"
  by (cases ws) (simp_all add: unwords_def)

lemma unwords_single: "unwords [w] = w"
  by (simp add: unwords_def)

lemma spaced_Cons: "ws \<noteq> [] \<Longrightarrow> spaced (w # ws) = w # '' '' # spaced ws"
  by (cases ws) simp_all

lemma unwords_nonempty:
  "ws \<noteq> [] \<Longrightarrow> \<forall>w\<in>set ws. simple_word w \<Longrightarrow> unwords ws \<noteq> [] \<and> plain (hd (unwords ws))"
  by (cases ws; cases "tl ws")
     (auto simp: unwords_def simple_word_def list_all_iff neq_Nil_conv)

lemma split_from_words:
  assumes "\<forall>w\<in>set ws. simple_word w"
  shows "split_from seen (unwords ws) = spaced ws"
  using assms
proof (induction ws arbitrary: seen)
  case Nil
  then show ?case by (simp add: unwords_def)
next
  case (Cons w ws)
  from Cons.prems obtain c cs where w: "w = c # cs" "plain c" "list_all plain cs"
    by (cases w) (auto simp: simple_word_def)
  show ?case
  proof (cases "ws = []")
    case True
    have "next_chunk seen c (cs @ []) = (c # cs, [])"
      using w by (intro next_chunk_word) simp_all
    then show ?thesis using True w by (simp add: unwords_single)
  next
    case False
    let ?rest = "unwords ws"
    have rest: "?rest \<noteq> []" "plain (hd ?rest)"
      using unwords_nonempty [OF False] Cons.prems by simp_all
    have 1: "next_chunk seen c (cs @ '' '' @ ?rest) = (c # cs, '' '' @ ?rest)"
      using w by (intro next_chunk_word) simp_all
    have 2: "next_chunk seen' CHR '' '' ?rest = ('' '', ?rest)" for seen'
      using rest by (rule next_chunk_space)
    have IH: "split_from seen'' ?rest = spaced ws" for seen''
      using Cons by simp
    show ?thesis
      using False w 1 2 IH by (simp add: unwords_Cons spaced_Cons)
  qed
qed


subsection \<open>Wrapping plain words\<close>

definition pre :: "string list \<Rightarrow> string list" where
  "pre ws = concat (map (\<lambda>w. ['' '', w]) ws)"

lemma pre_simps [simp]: "pre [] = []" "pre (w # ws) = '' '' # w # pre ws"
  by (simp_all add: pre_def)

lemma spaced_pre: "spaced (w # ws) = w # pre ws"
  by (induction ws arbitrary: w) (simp_all add: spaced_Cons)

lemma tl_pre: "r \<noteq> [] \<Longrightarrow> tl (pre r) = spaced r"
  by (cases r) (simp_all add: spaced_pre)

lemma concat_spaced: "concat (spaced ws) = unwords ws"
proof (induction ws)
  case Nil
  then show ?case by (simp add: unwords_def)
next
  case (Cons w ws)
  then show ?case
    by (cases "ws = []") (simp_all add: unwords_single unwords_Cons spaced_Cons)
qed

lemma take_words_append: "take_words n ws = (g, r) \<Longrightarrow> g @ r = ws"
  by (induction n ws arbitrary: g r rule: take_words.induct)
     (auto split: if_splits prod.splits)

definition line_cost :: "string list \<Rightarrow> nat" where
  "line_cost g = sum_list (map (\<lambda>w. 1 + length w) g)"


lemma take_words_stops:
  "take_words n ws = (g, r) \<Longrightarrow> r \<noteq> [] \<Longrightarrow> width < n + line_cost g + 1 + length (hd r)"
  by (induction n ws arbitrary: g r rule: take_words.induct)
     (auto simp: line_cost_def split: if_splits prod.splits)

lemma sum_length_pre: "sum_list (map length (pre g)) = line_cost g"
  by (induction g) (simp_all add: line_cost_def)


lemma take_fitting_pre:
  assumes "take_words n ws = (g, r)"
  shows "take_fitting n (pre ws) =
           (if r \<noteq> [] \<and> n + line_cost g + 1 \<le> width then (pre g @ ['' ''], tl (pre r))
            else (pre g, pre r))"
  using assms
proof (induction ws arbitrary: n g r)
  case Nil
  then show ?case by (simp add: line_cost_def)
next
  case (Cons w ws)
  show ?case
  proof (cases "n + 1 + length w \<le> width")
    case True
    obtain g' r' where gr: "take_words (n + 1 + length w) ws = (g', r')"
      by (cases "take_words (n + 1 + length w) ws")
    with True Cons.prems have g: "g = w # g'" and r: "r = r'" by simp_all
    have "n + 1 \<le> width" using True by simp
    then show ?thesis
      using True Cons.IH [OF gr] g r
      by (simp add: line_cost_def add.assoc add.commute add.left_commute)
  next
    case False
    with Cons.prems have "g = []" and "r = w # ws" by simp_all
    then show ?thesis using False by (simp add: line_cost_def)
  qed
qed

lemma strip_plain: "list_all plain w \<Longrightarrow> strip w = w"
proof (cases w rule: rev_cases)
  case Nil
  then show ?thesis by (simp add: strip_def lstrip_def rstrip_def)
next
  case (snoc ys y)
  assume "list_all plain w"
  with snoc have y: "\<not> isspace y" and h: "ys \<noteq> [] \<Longrightarrow> \<not> isspace (hd ys)"
    by (auto simp: plain_def list_all_iff)
  have "lstrip w = w"
    using snoc y h by (cases ys) (simp_all add: lstrip_def)
  then show ?thesis using snoc y by (simp add: strip_def rstrip_def)
qed

lemma strip_simple_word: "simple_word w \<Longrightarrow> strip w \<noteq> []"
  by (simp add: simple_word_def strip_plain)

lemma strip_space: "strip '' '' = []"
  by (simp add: strip_def lstrip_def rstrip_def space_is_space)

lemma wrap_line_drop_space: "wrap_line True ('' '' # cs) = wrap_line False cs"
  by (simp add: wrap_line_def strip_space)

lemma wrap_line_word: "strip w \<noteq> [] \<Longrightarrow> wrap_line b (w # cs) = wrap_line False (w # cs)"
  by (simp add: wrap_line_def)

lemma last_pre: "g \<noteq> [] \<Longrightarrow> last (pre g) = last g"
  by (induction g) (auto simp: pre_def)

lemma wrap_line_words:
  assumes "simple_word w" and "\<forall>v\<in>set ws. simple_word v"
    and "take_words (length w) ws = (g, r)"
  shows "wrap_line False (w # pre ws) =
           (w # pre g,
            if r \<noteq> [] \<and> length w + line_cost g + 1 \<le> width then tl (pre r) else pre r)"
proof -
  have w: "length w \<le> width" "strip w \<noteq> []"
    using assms(1) by (simp_all add: simple_word_def strip_simple_word)
  have r_simple: "\<forall>v\<in>set r. simple_word v"
    using take_words_append [OF assms(3)] assms(2) by auto
  have g_simple: "\<forall>v\<in>set g. simple_word v"
    using take_words_append [OF assms(3)] assms(2) by auto
  have last_g: "g \<noteq> [] \<Longrightarrow> strip (last (pre g)) \<noteq> []"
    using g_simple by (simp add: last_pre strip_simple_word)
  show ?thesis
  proof (cases "r \<noteq> [] \<and> length w + line_cost g + 1 \<le> width")
    case True
    then obtain v vs where r: "r = v # vs" by (cases r) auto
    have v: "length v \<le> width" using r_simple r by (simp add: simple_word_def)
    have tf: "take_fitting 0 (w # pre ws) = (w # pre g @ ['' ''], v # pre vs)"
      using w take_fitting_pre [OF assms(3)] True r by simp
    show ?thesis
      using tf True r v by (simp add: wrap_line_def w strip_space butlast_append)
  next
    case False
    then have tf: "take_fitting 0 (w # pre ws) = (w # pre g, pre r)"
      using w take_fitting_pre [OF assms(3)] by simp
    have short: "pre r \<noteq> [] \<Longrightarrow> length (hd (pre r)) \<le> width"
      by (cases r) (simp_all add: width_def)
    show ?thesis
    proof (cases "pre r")
      case Nil
      then show ?thesis
        using tf False last_g w by (cases "g = []") (simp_all add: wrap_line_def)
    next
      case (Cons c cs)
      then have "\<not> width < length c" using short by simp
      then show ?thesis
        using tf False last_g w Cons by (cases "g = []") (simp_all add: wrap_line_def)
    qed
  qed
qed

lemma wrap_chunks_Nil: "wrap_chunks b [] = []"
  by (simp add: wrap_chunks.simps)

lemma wrap_chunks_words:
  assumes "\<forall>w\<in>set ws. simple_word w"
  shows "wrap_chunks b (spaced ws) = map unwords (greedy_lines ws)"
  using assms
proof (induction ws arbitrary: b rule: greedy_lines.induct)
  case 1
  then show ?case by (simp add: wrap_chunks_Nil)
next
  case (2 w ws)
  obtain g r where gr: "take_words (length w) ws = (g, r)"
    by (cases "take_words (length w) ws")
  have w: "simple_word w" and ws: "\<forall>v\<in>set ws. simple_word v" using "2.prems" by simp_all
  have r_simple: "\<forall>v\<in>set r. simple_word v"
    using take_words_append [OF gr] ws by auto
  have IH: "wrap_chunks b' (spaced r) = map unwords (greedy_lines r)" for b'
    using "2.IH" [OF gr [symmetric] r_simple] .
  let ?R = "if r \<noteq> [] \<and> length w + line_cost g + 1 \<le> width then tl (pre r) else pre r"
  have line: "wrap_line b (w # pre ws) = (w # pre g, ?R)"
    using wrap_line_word [of w b "pre ws"] wrap_line_words [OF w ws gr] w
    by (simp add: strip_simple_word)
  have first: "wrap_chunks b (spaced (w # ws)) = unwords (w # g) # wrap_chunks True ?R"
    using line
    by (subst wrap_chunks.simps) (simp add: spaced_pre concat_spaced [symmetric])
  have rest: "wrap_chunks True ?R = map unwords (greedy_lines r)"
  proof (cases "r = []")
    case True
    then show ?thesis by (simp add: wrap_chunks_Nil)
  next
    case False
    then obtain v vs where r: "r = v # vs" by (cases r) auto
    have v: "simple_word v" and vs: "\<forall>u\<in>set vs. simple_word u" using r_simple r by simp_all
    have "wrap_chunks True (pre r) = wrap_chunks True (spaced r)"
      using r wrap_line_drop_space [of "v # pre vs"] wrap_line_word [of v True "pre vs"] v
      by (subst wrap_chunks.simps, subst (2) wrap_chunks.simps)
         (simp add: spaced_pre strip_simple_word)
    then show ?thesis using IH [of True] False by (simp add: tl_pre)
  qed
  show ?case using first rest gr by simp
qed

lemma greedy_lines_concat: "concat (greedy_lines ws) = ws"
proof (induction ws rule: greedy_lines.induct)
  case 1
  then show ?case by simp
next
  case (2 w ws)
  obtain g r where gr: "take_words (length w) ws = (g, r)"
    by (cases "take_words (length w) ws")
  then show ?case using "2.IH" [OF gr [symmetric]] take_words_append [OF gr] by simp
qed

lemma greedy_lines_nonempty: "[] \<notin> set (greedy_lines ws)"
proof (induction ws rule: greedy_lines.induct)
  case 1
  then show ?case by simp
next
  case (2 w ws)
  obtain g r where gr: "take_words (length w) ws = (g, r)"
    by (cases "take_words (length w) ws")
  then show ?case using "2.IH" [OF gr [symmetric]] by simp
qed



subsection \<open>Lines, indentation and surrounding whitespace\<close>

lemma split_on_no_sep: "sep \<notin> set l \<Longrightarrow> split_on sep l = [l]"
  by (induction l) auto

lemma split_on_append: "sep \<notin> set l \<Longrightarrow> split_on sep (l @ sep # r) = l # split_on sep r"
  by (induction l) auto

lemma join_Cons: "ls \<noteq> [] \<Longrightarrow> join sep (l # ls) = l @ sep @ join sep ls"
  by (cases ls) simp_all

lemma split_on_join:
  "ls \<noteq> [] \<Longrightarrow> \<forall>l\<in>set ls. sep \<notin> set l \<Longrightarrow> split_on sep (join [sep] ls) = ls"
proof (induction ls)
  case Nil
  then show ?case by simp
next
  case (Cons l ls)
  then show ?case
    by (cases "ls = []") (simp_all add: split_on_no_sep split_on_append join_Cons)
qed

lemma find_margin_uniform:
  assumes "\<forall>i\<in>set indents. i = ind"
  shows "find_margin indents = (if indents = [] then None else Some ind)"
proof -
  have step: "foldl margin_step (Some ind) is = Some ind" if "\<forall>i\<in>set is. i = ind" for "is"
    using that by (induction "is") (simp_all add: startswith_def)
  show ?thesis
    using assms step by (cases indents) (simp_all add: find_margin_def)
qed

lemma takeWhile_blank_indent:
  assumes "list_all blank ind" and "l' \<noteq> []" and "\<not> blank (hd l')"
  shows "takeWhile blank (ind @ l') = ind" and "dropWhile blank (ind @ l') = l'"
  using assms by (cases l'; simp add: list_all_iff takeWhile_append2 dropWhile_append2)+

lemma dropWhile_all: "list_all P l \<Longrightarrow> dropWhile P l = []"
  by (simp add: list_all_iff)

lemma dedent_uniform:
  assumes ls: "ls \<noteq> []" and nl: "\<forall>l\<in>set ls. CHR 0x0A \<notin> set l"
    and ind: "list_all blank ind"
    and shape: "\<forall>l\<in>set ls. list_all blank l \<or>
                  (\<exists>l'. l = ind @ l' \<and> l' \<noteq> [] \<and> \<not> blank (hd l'))"
  shows "dedent (join [CHR 0x0A] ls) =
           join [CHR 0x0A]
             (map (\<lambda>l. if list_all blank l then [] else drop (length ind) l) ls)"
proof -
  define f :: "string \<Rightarrow> string" where "f = (\<lambda>l. if list_all blank l then [] else l)"
  define h :: "string \<Rightarrow> string"
    where "h = (\<lambda>l. if list_all blank l then [] else drop (length ind) l)"
  have lines: "whitespace_only_sub (split_on CHR 0x0A (join [CHR 0x0A] ls)) = map f ls"
    using ls nl by (simp add: split_on_join whitespace_only_sub_def f_def)
  have blank_line: "f l = [] \<and> h l = []" if "list_all blank l" for l
    using that by (simp add: f_def h_def)
  have prose: "\<exists>l'. l = ind @ l' \<and> l' \<noteq> [] \<and> \<not> blank (hd l') \<and> f l = l \<and> h l = l'"
    if "l \<in> set ls" and "\<not> list_all blank l" for l
    using that shape by (auto simp: f_def h_def)
  have indent_of: "takeWhile blank (f l) = ind"
    if "l \<in> set ls" and "dropWhile blank (f l) \<noteq> []" for l
  proof -
    from that(2) have nb: "\<not> list_all blank l"
      using blank_line [of l] by auto
    from prose [OF that(1) nb] obtain l'
      where l': "l = ind @ l'" "l' \<noteq> []" "\<not> blank (hd l')" "f l = l" by blast
    have "takeWhile blank (ind @ l') = ind"
      using ind l'(2,3) by (rule takeWhile_blank_indent(1))
    then show ?thesis using l'(1,4) by simp
  qed
  have uniform: "\<forall>i\<in>set (leading_whitespace (map f ls)). i = ind"
  proof
    fix i
    assume "i \<in> set (leading_whitespace (map f ls))"
    then obtain l where "l \<in> set ls" and "dropWhile blank (f l) \<noteq> []"
      and "i = takeWhile blank (f l)"
      unfolding leading_whitespace_def by auto
    then show "i = ind" using indent_of by simp
  qed
  have removed: "remove_margin ind (map f ls) = map h ls"
  proof -
    have "(if startswith (f l) ind then drop (length ind) (f l) else f l) = h l"
      if "l \<in> set ls" for l
    proof (cases "list_all blank l")
      case True
      then show ?thesis using blank_line [of l] by simp
    next
      case False
      from prose [OF that False] obtain l'
        where l': "l = ind @ l'" "f l = l" "h l = l'" by blast
      then have fl: "f l = ind @ l'" by simp
      show ?thesis unfolding fl l'(3) by (simp add: startswith_def)
    qed
    then show ?thesis by (simp add: remove_margin_def)
  qed
  have same: "map f ls = map h ls" if "ind = []"
    using that by (simp add: f_def h_def)
  have all_blank: "map f ls = map h ls" if e: "leading_whitespace (map f ls) = []"
  proof -
    have "list_all blank l" if l: "l \<in> set ls" for l
    proof (rule ccontr)
      assume n: "\<not> list_all blank l"
      from prose [OF l n] obtain l'
        where l': "l = ind @ l'" "l' \<noteq> []" "\<not> blank (hd l')" "f l = l" by blast
      have "dropWhile blank (ind @ l') = l'"
        using ind l'(2,3) by (rule takeWhile_blank_indent(2))
      then have "dropWhile blank (f l) \<noteq> []" using l' by simp
      with l e show False
        unfolding leading_whitespace_def by (auto simp: filter_empty_conv)
    qed
    then show ?thesis using blank_line by simp
  qed
  have "dedent (join [CHR 0x0A] ls) = join [CHR 0x0A] (map h ls)"
  proof (cases "leading_whitespace (map f ls) = []")
    case True
    have "dedent (join [CHR 0x0A] ls) = join [CHR 0x0A] (map f ls)"
      unfolding dedent_def Let_def lines find_margin_uniform [OF uniform]
      using True by simp
    then show ?thesis unfolding all_blank [OF True] .
  next
    case False
    have d: "dedent (join [CHR 0x0A] ls) =
               (if ind = [] then join [CHR 0x0A] (map f ls)
                else join [CHR 0x0A] (remove_margin ind (map f ls)))"
      unfolding dedent_def Let_def lines find_margin_uniform [OF uniform]
      using False by simp
    show ?thesis
    proof (cases "ind = []")
      case True
      from d True have "dedent (join [CHR 0x0A] ls) = join [CHR 0x0A] (map f ls)"
        by simp
      then show ?thesis unfolding same [OF True] .
    next
      case False
      from d False have "dedent (join [CHR 0x0A] ls)
          = join [CHR 0x0A] (remove_margin ind (map f ls))"
        by simp
      then show ?thesis unfolding removed .
    qed
  qed
  then show ?thesis by (simp add: h_def)
qed

lemma strip_trim:
  assumes "m \<noteq> []" and "\<not> isspace (hd m)" and "\<not> isspace (last m)"
    and "list_all isspace a" and "list_all isspace b"
  shows "strip (a @ m @ b) = m"
proof -
  obtain c cs where m: "m = c # cs" using assms(1) by (cases m) auto
  have l: "lstrip (a @ m @ b) = m @ b"
    using assms(2,4) m by (simp add: lstrip_def list_all_iff dropWhile_append2)
  obtain ys y where m': "m = ys @ [y]" using assms(1) by (cases m rule: rev_cases) auto
  have "dropWhile isspace (rev b @ rev m) = dropWhile isspace (rev m)"
    by (rule dropWhile_append2) (use assms(5) in \<open>simp add: list_all_iff\<close>)
  also have "\<dots> = rev m" using assms(3) m' by simp
  finally have "dropWhile isspace (rev b @ rev m) = rev m" .
  then show ?thesis
    by (simp add: strip_def l rstrip_def)
qed

lemma hd_join: "ls \<noteq> [] \<Longrightarrow> hd ls \<noteq> [] \<Longrightarrow> hd (join sep ls) = hd (hd ls)"
  by (cases ls; cases "tl ls") (auto simp: neq_Nil_conv)

lemma join_last:
  "ls \<noteq> [] \<Longrightarrow> last ls \<noteq> [] \<Longrightarrow>
     join sep ls \<noteq> [] \<and> last (join sep ls) = last (last ls)"
proof (induction ls)
  case Nil
  then show ?case by simp
next
  case (Cons l ls)
  then show ?case
    by (cases "ls = []") (auto simp: join_Cons)
qed

lemma last_join:
  "ls \<noteq> [] \<Longrightarrow> last ls \<noteq> [] \<Longrightarrow> last (join sep ls) = last (last ls)"
  by (simp add: join_last)

lemma join_nonempty: "ls \<noteq> [] \<Longrightarrow> hd ls \<noteq> [] \<Longrightarrow> join sep ls \<noteq> []"
  by (cases ls; cases "tl ls") (auto simp: neq_Nil_conv)

text \<open>A line of plain words: not empty, it starts and ends with a plain character.\<close>

lemma simple_word_ends: "simple_word w \<Longrightarrow> w \<noteq> [] \<and> plain (hd w) \<and> plain (last w)"
  by (auto simp: simple_word_def list_all_iff)

lemma unwords_ends:
  assumes "ws \<noteq> []" and "\<forall>w\<in>set ws. simple_word w"
  shows "unwords ws \<noteq> []" and "plain (hd (unwords ws))" and "plain (last (unwords ws))"
proof -
  have h: "hd ws \<noteq> []" and l: "last ws \<noteq> []"
    using assms simple_word_ends by (simp_all add: simple_word_def)
  show "unwords ws \<noteq> []" unfolding unwords_def using assms(1) h by (rule join_nonempty)
  show "plain (hd (unwords ws))"
    unfolding unwords_def using hd_join [OF assms(1) h] assms simple_word_ends by simp
  show "plain (last (unwords ws))"
    unfolding unwords_def using last_join [OF assms(1) l] assms simple_word_ends by simp
qed

lemma unwords_chars:
  assumes "\<forall>w\<in>set ws. simple_word w"
  shows "\<forall>c\<in>set (unwords ws). plain c \<or> c = CHR '' ''"
  using assms
proof (induction ws)
  case Nil
  then show ?case by (simp add: unwords_def)
next
  case (Cons w ws)
  then show ?case
    by (cases "ws = []")
       (auto simp: unwords_single unwords_Cons simple_word_def list_all_iff)
qed

definition prose_line :: "string \<Rightarrow> bool" where
  "prose_line l = (l \<noteq> [] \<and> plain (hd l) \<and> plain (last l) \<and>
                   (\<forall>c\<in>set l. plain c \<or> c = CHR '' ''))"

lemma prose_line_unwords:
  "ws \<noteq> [] \<Longrightarrow> \<forall>w\<in>set ws. simple_word w \<Longrightarrow> prose_line (unwords ws)"
  using unwords_ends [of ws] unwords_chars [of ws] by (simp add: prose_line_def)

lemma newline_chars: "isspace CHR 0x0A" "tw_space CHR 0x0A" "\<not> plain CHR 0x0A" "blank CHR '' ''"
  "CHR 0x0A \<noteq> CHR '' ''"
  by (simp_all add: isspace_def tw_space_def plain_def blank_def code_def)

lemma prose_line_no_newline: "prose_line l \<Longrightarrow> CHR 0x0A \<notin> set l"
  using newline_chars by (auto simp: prose_line_def)

lemma prose_line_not_blank: "prose_line l \<Longrightarrow> \<not> list_all blank l \<and> \<not> blank (hd l)"
  by (cases l) (auto simp: prose_line_def plain_not_blank)

lemma prose_lines_join:
  assumes "ls \<noteq> []" and "\<forall>l\<in>set ls. prose_line l"
  shows "join [CHR 0x0A] ls \<noteq> []" and "\<not> isspace (hd (join [CHR 0x0A] ls))"
    and "\<not> isspace (last (join [CHR 0x0A] ls))"
proof -
  have h: "hd ls \<noteq> []" and l: "last ls \<noteq> []"
    using assms by (simp_all add: prose_line_def)
  show "join [CHR 0x0A] ls \<noteq> []" using assms(1) h by (rule join_nonempty)
  show "\<not> isspace (hd (join [CHR 0x0A] ls))"
    using hd_join [OF assms(1) h] assms by (simp add: prose_line_def plain_def)
  show "\<not> isspace (last (join [CHR 0x0A] ls))"
    using last_join [OF assms(1) l] assms by (simp add: prose_line_def plain_def)
qed

text \<open>Dedenting and stripping a literal leaves its lines.\<close>

lemma literal_join:
  "literal ind ls = join [CHR 0x0A] ([] # map (\<lambda>l. ind @ l) ls @ [ind])"
proof -
  have "concat (map (\<lambda>l. ind @ l @ [CHR 0x0A]) ls) @ ind
        = join [CHR 0x0A] (map (\<lambda>l. ind @ l) ls @ [ind])"
    by (induction ls) (simp_all add: join_Cons)
  then show ?thesis by (simp add: literal_def join_Cons)
qed

lemma join_snoc_empty: "ls \<noteq> [] \<Longrightarrow> join sep (ls @ [[]]) = join sep ls @ sep"
proof (induction ls)
  case Nil
  then show ?case by simp
next
  case (Cons l ls)
  then show ?case by (cases "ls = []") (simp_all add: join_Cons)
qed

lemma strip_dedent_literal:
  assumes ind: "list_all blank ind" and ls: "ls \<noteq> []" and prose: "\<forall>l\<in>set ls. prose_line l"
  shows "strip (dedent (literal ind ls)) = join [CHR 0x0A] ls"
proof -
  let ?lines = "[] # map (\<lambda>l. ind @ l) ls @ [ind]"
  have no_nl_ind: "CHR 0x0A \<notin> set ind"
    using ind by (auto simp: list_all_iff blank_def code_def)
  have 1: "\<forall>l\<in>set ?lines. CHR 0x0A \<notin> set l"
    using prose prose_line_no_newline no_nl_ind by auto
  have 2: "\<forall>l\<in>set ?lines. list_all blank l \<or>
             (\<exists>l'. l = ind @ l' \<and> l' \<noteq> [] \<and> \<not> blank (hd l'))"
    using prose ind prose_line_not_blank by (auto simp: prose_line_def)
  have keep: "(if list_all blank (ind @ l) then [] else drop (length ind) (ind @ l)) = l"
    if "l \<in> set ls" for l
    using that prose prose_line_not_blank by auto
  have "map (\<lambda>l. if list_all blank l then [] else drop (length ind) l) ?lines
        = [] # ls @ [[]]"
    using ind keep by (simp add: comp_def cong: map_cong)
  then have "dedent (literal ind ls) = join [CHR 0x0A] ([] # ls @ [[]])"
    using dedent_uniform [OF _ 1 ind 2] by (simp add: literal_join)
  also have "\<dots> = [CHR 0x0A] @ join [CHR 0x0A] ls @ [CHR 0x0A]"
    using ls by (simp add: join_Cons join_snoc_empty)
  finally show ?thesis
    using strip_trim [OF prose_lines_join [OF ls prose], of "[CHR 0x0A]" "[CHR 0x0A]"]
    by (simp add: newline_chars)
qed

lemma strip_dedent_prose:
  assumes ls: "ls \<noteq> []" and prose: "\<forall>l\<in>set ls. prose_line l"
  shows "strip (dedent (join [CHR 0x0A] ls)) = join [CHR 0x0A] ls"
proof -
  have 1: "\<forall>l\<in>set ls. CHR 0x0A \<notin> set l"
    using prose prose_line_no_newline by auto
  have 2: "\<forall>l\<in>set ls. list_all blank l \<or>
             (\<exists>l'. l = [] @ l' \<and> l' \<noteq> [] \<and> \<not> blank (hd l'))"
    using prose prose_line_not_blank by (auto simp: prose_line_def)
  have "map (\<lambda>l. if list_all blank l then [] else drop (length ([] :: string)) l) ls = ls"
    using prose prose_line_not_blank by (simp add: map_idI)
  then have "dedent (join [CHR 0x0A] ls) = join [CHR 0x0A] ls"
    using dedent_uniform [OF ls 1 _ 2] by simp
  then show ?thesis
    using strip_trim [OF prose_lines_join [OF ls prose], of "[]" "[]"] by simp
qed


subsection \<open>Whitespace of prose lines\<close>

lemma expandtabs_no_tab: "\<forall>c\<in>set s. code c \<noteq> 0x09 \<Longrightarrow> expandtabs_from col s = s"
  by (induction s arbitrary: col) simp_all

lemma plain_code: "plain c \<Longrightarrow> code c \<noteq> 0x09"
  by (auto simp: plain_def isspace_def)

lemma prose_line_munged:
  assumes "prose_line l"
  shows "\<forall>c\<in>set l. code c \<noteq> 0x09" and "map (\<lambda>c. if tw_space c then CHR '' '' else c) l = l"
proof -
  have chars: "\<forall>c\<in>set l. plain c \<or> c = CHR '' ''" using assms by (simp add: prose_line_def)
  show "\<forall>c\<in>set l. code c \<noteq> 0x09"
    using chars plain_code by (auto simp: code_def)
  have "(if tw_space c then CHR '' '' else c) = c" if "c \<in> set l" for c
    using chars that plain_not_space by auto
  then show "map (\<lambda>c. if tw_space c then CHR '' '' else c) l = l"
    by (rule map_idI)
qed

lemma munge_prose:
  assumes "ls \<noteq> []" and "\<forall>l\<in>set ls. prose_line l"
  shows "munge_whitespace (join [CHR 0x0A] ls) = join '' '' ls"
proof -
  have no_tab: "\<forall>c\<in>set (join [CHR 0x0A] ls). code c \<noteq> 0x09"
    using assms
  proof (induction ls)
    case Nil
    then show ?case by simp
  next
    case (Cons l ls)
    then show ?case
      using prose_line_munged(1) [of l]
      by (cases "ls = []") (auto simp: join_Cons code_def)
  qed
  have "map (\<lambda>c. if tw_space c then CHR '' '' else c) (join [CHR 0x0A] ls) = join '' '' ls"
    using assms
  proof (induction ls)
    case Nil
    then show ?case by simp
  next
    case (Cons l ls)
    then show ?case
      using prose_line_munged(2) [of l]
      by (cases "ls = []") (simp_all add: join_Cons newline_chars)
  qed
  then show ?thesis
    by (simp add: munge_whitespace_def expandtabs_def expandtabs_no_tab [OF no_tab])
qed

lemma unwords_append:
  "ws \<noteq> [] \<Longrightarrow> vs \<noteq> [] \<Longrightarrow> unwords (ws @ vs) = unwords ws @ '' '' @ unwords vs"
proof (induction ws)
  case Nil
  then show ?case by simp
next
  case (Cons w ws)
  then show ?case
    by (cases "ws = []") (simp_all add: unwords_Cons unwords_single)
qed

lemma join_unwords:
  assumes "\<forall>ws\<in>set wss. ws \<noteq> []"
  shows "join '' '' (map unwords wss) = unwords (concat wss)"
  using assms
proof (induction wss)
  case Nil
  then show ?case by (simp add: unwords_def)
next
  case (Cons ws wss)
  show ?case
  proof (cases "wss = []")
    case True
    then show ?thesis by simp
  next
    case False
    then have "concat wss \<noteq> []" using Cons.prems by (cases wss) auto
    then show ?thesis
      using Cons False by (simp add: join_Cons unwords_append)
  qed
qed

text \<open>The text of prose lines: plain words separated by single spaces.\<close>

lemma munge_lines:
  assumes "wss \<noteq> []" and "\<forall>ws\<in>set wss. ws \<noteq> [] \<and> (\<forall>w\<in>set ws. simple_word w)"
  shows "munge_whitespace (join [CHR 0x0A] (map unwords wss)) = unwords (concat wss)"
proof -
  have "\<forall>l\<in>set (map unwords wss). prose_line l"
    using assms(2) prose_line_unwords by auto
  then have "munge_whitespace (join [CHR 0x0A] (map unwords wss)) = join '' '' (map unwords wss)"
    using assms(1) by (intro munge_prose) simp_all
  then show ?thesis using assms(2) by (simp add: join_unwords)
qed

lemma fill_words:
  assumes "\<forall>w\<in>set W. simple_word w" and "munge_whitespace t = unwords W"
  shows "fill t = join [CHR 0x0A] (map unwords (greedy_lines W))"
  using assms by (simp add: fill_def wrap_def split_chunks_def split_from_words wrap_chunks_words)

lemma greedy_lines_words:
  assumes "\<forall>w\<in>set W. simple_word w"
  shows "\<forall>g\<in>set (greedy_lines W). g \<noteq> [] \<and> (\<forall>w\<in>set g. simple_word w)"
proof
  fix g
  assume g: "g \<in> set (greedy_lines W)"
  then have "set g \<subseteq> set (concat (greedy_lines W))" by auto
  then have "\<forall>w\<in>set g. simple_word w" using assms by (auto simp: greedy_lines_concat)
  moreover have "g \<noteq> []" using g greedy_lines_nonempty [of W] by auto
  ultimately show "g \<noteq> [] \<and> (\<forall>w\<in>set g. simple_word w)" by simp
qed

lemma reflow_plain_words:
  assumes W: "W \<noteq> []" and words: "\<forall>w\<in>set W. simple_word w"
    and munged: "munge_whitespace (strip (dedent x)) = unwords W"
  shows "reflow x = join [CHR 0x0A] (map unwords (greedy_lines W))"
    and "reflow (reflow x) = reflow x"
proof -
  let ?G = "greedy_lines W"
  let ?y = "join [CHR 0x0A] (map unwords ?G)"
  show y: "reflow x = ?y"
    using fill_words [OF words munged] by (simp add: reflow_def)
  have G: "?G \<noteq> []" using W greedy_lines_concat [of W] by auto
  have groups: "\<forall>g\<in>set ?G. g \<noteq> [] \<and> (\<forall>w\<in>set g. simple_word w)"
    using greedy_lines_words [OF words] .
  have prose: "\<forall>l\<in>set (map unwords ?G). prose_line l"
    using groups prose_line_unwords by auto
  have "strip (dedent ?y) = ?y"
    using G prose by (intro strip_dedent_prose) simp_all
  moreover have "munge_whitespace ?y = unwords W"
    using munge_lines [OF G groups] by (simp add: greedy_lines_concat)
  ultimately have "reflow ?y = ?y"
    using fill_words [OF words, of ?y] by (simp add: reflow_def)
  then show "reflow (reflow x) = reflow x" by (simp add: y)
qed

lemma literal_plain_words:
  assumes ind: "list_all blank ind" and wss: "wss \<noteq> []"
    and words: "\<forall>ws\<in>set wss. ws \<noteq> [] \<and> (\<forall>w\<in>set ws. simple_word w)"
  shows "strip (dedent (literal ind (map unwords wss))) = join [CHR 0x0A] (map unwords wss)"
    and "munge_whitespace (strip (dedent (literal ind (map unwords wss)))) = unwords (concat wss)"
proof -
  have "\<forall>l\<in>set (map unwords wss). prose_line l"
    using words prose_line_unwords by auto
  then show 1: "strip (dedent (literal ind (map unwords wss))) = join [CHR 0x0A] (map unwords wss)"
    using ind wss by (intro strip_dedent_literal) simp_all
  show "munge_whitespace (strip (dedent (literal ind (map unwords wss)))) = unwords (concat wss)"
    unfolding 1 using wss words by (rule munge_lines)
qed


section \<open>Properties of reflow\<close>









text \<open>
  An indented literal of plain words is such an input: dedenting removes the
  common indentation, stripping removes the first newline and the last line, and
  what is left are the lines of the literal.
\<close>

lemma reflow_literal:
  assumes "list_all blank ind" and "wss \<noteq> []"
    and "\<forall>ws\<in>set wss. ws \<noteq> [] \<and> (\<forall>w\<in>set ws. simple_word w)"
  shows "strip (dedent (literal ind (map unwords wss))) = join [CHR 0x0A] (map unwords wss)"
    and "reflow (literal ind (map unwords wss))
           = join [CHR 0x0A] (map unwords (greedy_lines (concat wss)))"
    and "reflow (reflow (literal ind (map unwords wss))) = reflow (literal ind (map unwords wss))"
proof -
  have W: "concat wss \<noteq> []" using assms(2,3) by (cases wss) auto
  have words: "\<forall>w\<in>set (concat wss). simple_word w" using assms(3) by auto
  show "strip (dedent (literal ind (map unwords wss))) = join [CHR 0x0A] (map unwords wss)"
    using assms by (rule literal_plain_words(1))
  show "reflow (literal ind (map unwords wss))
           = join [CHR 0x0A] (map unwords (greedy_lines (concat wss)))"
    using W words literal_plain_words(2) [OF assms] by (rule reflow_plain_words(1))
  show "reflow (reflow (literal ind (map unwords wss))) = reflow (literal ind (map unwords wss))"
    using W words literal_plain_words(2) [OF assms] by (rule reflow_plain_words(2))
qed

end
